theory Spec2Isabelle
  imports Main "HOL-Library.Word"
begin

section \<open>The type vocabulary and the run-time values the parser walks\<close>

text \<open>
  The parser of \<^verbatim>\<open>parse.go\<close> answers the calls of the \<^verbatim>\<open>Parser\<close> interface by
  inspecting Go values through package \<^verbatim>\<open>reflect\<close>. The constants of \<^verbatim>\<open>objconv.Type\<close>
  that \<^verbatim>\<open>ParseType\<close> returns and the kinds of \<^verbatim>\<open>reflect.Kind\<close> it switches on are
  enumerations; a dot of a Go qualified name is written as an underscore.
\<close>

datatype Type =
    objconv_Nil | objconv_Bool | objconv_Int | objconv_Uint | objconv_Float
  | objconv_String | objconv_Bytes | objconv_Time | objconv_Duration | objconv_Error
  | objconv_Array | objconv_Map

datatype Kind =
    reflect_Invalid | reflect_Bool
  | reflect_Int | reflect_Int8 | reflect_Int16 | reflect_Int32 | reflect_Int64
  | reflect_Uint | reflect_Uint8 | reflect_Uint16 | reflect_Uint32 | reflect_Uint64
  | reflect_Uintptr | reflect_Float32 | reflect_Float64
  | reflect_Complex64 | reflect_Complex128
  | reflect_Array | reflect_Chan | reflect_Func | reflect_Interface | reflect_Map
  | reflect_Ptr | reflect_Slice | reflect_String | reflect_Struct | reflect_UnsafePointer

text \<open>
  What the parser asks of a \<^verbatim>\<open>reflect.Type\<close>: its printed name (\<^verbatim>\<open>Type.String()\<close>) and
  whether its method set satisfies the interface \<^verbatim>\<open>error\<close> (the \<^verbatim>\<open>case error\<close> of a type
  switch). Type identity, as tested by \<^verbatim>\<open>case time.Time\<close>, is equality of descriptors.
\<close>

datatype rtype = rtype (Type_String: string) (Implements_error: bool)

definition time_Time :: rtype where
  "time_Time = rtype ''time.Time'' False"

definition time_Duration :: rtype where
  "time_Duration = rtype ''time.Duration'' False"

definition string_type :: rtype where
  "string_type = rtype ''string'' False"

definition uint8_type :: rtype where
  "uint8_type = rtype ''uint8'' False"

datatype int_size = I | I8 | I16 | I32 | I64
datatype uint_size = U | U8 | U16 | U32 | U64 | Uptr
datatype float_size = F32 | F64
datatype complex_size = C64 | C128

text \<open>
  A \<^verbatim>\<open>reflect.Value\<close>. \<open>Zero\<close> is the zero Value (\<^verbatim>\<open>IsValid()\<close> is false), which
  \<^verbatim>\<open>reflect.ValueOf(nil)\<close>, \<^verbatim>\<open>Elem()\<close> of a nil pointer and \<^verbatim>\<open>MapIndex\<close> of an absent key
  return. Every other value carries its type descriptor. Integers are held as the 64-bit
  word \<^verbatim>\<open>Int()\<close>/\<^verbatim>\<open>Uint()\<close> return, floats as the IEEE bits of the \<^verbatim>\<open>float64\<close> that
  \<^verbatim>\<open>Float()\<close> returns. A slice and an array carry the kind of their element type
  (\<^verbatim>\<open>Type().Elem().Kind()\<close>) and their elements; a map its entries in the order
  \<^verbatim>\<open>MapKeys()\<close> enumerates them; a struct its fields by index; a pointer and an interface
  what they hold, \<open>None\<close> when nil. A pointer also carries the length of the array type
  when its element type is one (\<^verbatim>\<open>Type().Elem().Len()\<close>, which \<^verbatim>\<open>Len()\<close> returns for a
  pointer to an array, nil or not). A channel carries the number of queued elements, a
  function and an unsafe pointer an address.

  An array and a struct carry whether the Value is addressable (\<^verbatim>\<open>CanAddr()\<close>):
  \<^verbatim>\<open>Bytes()\<close> on an array of bytes depends on it, and \<^verbatim>\<open>Index\<close> on an array and
  \<^verbatim>\<open>Field\<close> on a struct hand it on to what they yield. The operation that yields a
  Value sets it: \<^verbatim>\<open>Elem()\<close> of a pointer and \<^verbatim>\<open>Index\<close> of a slice yield addressable
  Values, \<^verbatim>\<open>reflect.ValueOf\<close>, \<^verbatim>\<open>Elem()\<close> of an interface, \<^verbatim>\<open>MapKeys\<close> and
  \<^verbatim>\<open>MapIndex\<close> Values that are not. The flag written with a child inside a composite is
  therefore never read. For the other kinds, on which no operation the parser calls
  depends on it, addressability is not recorded.

  Values are finite terms: a pointer chain cannot loop back, so exactly the acyclic value
  graphs are represented. Values reached through unexported struct fields (on which
  \<^verbatim>\<open>Interface()\<close> panics) are not represented. Map keys are compared as terms, so a
  map with a NaN key (which \<^verbatim>\<open>MapIndex\<close> never finds) is not represented either.
\<close>

datatype Value =
    Zero
  | VBool rtype bool
  | VInt rtype int_size "64 word"
  | VUint rtype uint_size "64 word"
  | VFloat rtype float_size "64 word"
  | VComplex rtype complex_size "64 word" "64 word"
  | VString rtype string
  | VSlice rtype Kind "Value list"
  | VArray rtype Kind bool "Value list"
  | VMap rtype "(Value \<times> Value) list"
  | VStruct rtype bool "Value list"
  | VPtr rtype "nat option" "Value option"
  | VInterface rtype "Value option"
  | VChan rtype nat
  | VFunc rtype nat
  | VUnsafePointer rtype nat

text \<open>
  A Go panic ends the call; the model returns it as the left summand. Panics raised
  inside package \<^verbatim>\<open>reflect\<close> are one constructor, the run-time panics of the parser's
  own slice expressions and type assertions the others.
\<close>

datatype panic =
    reflect_panic
  | index_out_of_range
  | slice_bounds_out_of_range
  | interface_conversion

text \<open>An \<^verbatim>\<open>error\<close> value made by \<^verbatim>\<open>errors.New\<close>.\<close>

datatype error = errors_New string

subsection \<open>The operations of \<^verbatim>\<open>reflect.Value\<close> the parser calls\<close>

definition Value_IsValid :: "Value \<Rightarrow> bool" where
  "Value_IsValid v = (v \<noteq> Zero)"

fun Value_Kind :: "Value \<Rightarrow> Kind" where
  "Value_Kind Zero = reflect_Invalid"
| "Value_Kind (VBool t b) = reflect_Bool"
| "Value_Kind (VInt t s w) =
     (case s of I \<Rightarrow> reflect_Int | I8 \<Rightarrow> reflect_Int8 | I16 \<Rightarrow> reflect_Int16
      | I32 \<Rightarrow> reflect_Int32 | I64 \<Rightarrow> reflect_Int64)"
| "Value_Kind (VUint t s w) =
     (case s of U \<Rightarrow> reflect_Uint | U8 \<Rightarrow> reflect_Uint8 | U16 \<Rightarrow> reflect_Uint16
      | U32 \<Rightarrow> reflect_Uint32 | U64 \<Rightarrow> reflect_Uint64 | Uptr \<Rightarrow> reflect_Uintptr)"
| "Value_Kind (VFloat t s w) = (case s of F32 \<Rightarrow> reflect_Float32 | F64 \<Rightarrow> reflect_Float64)"
| "Value_Kind (VComplex t s re im) =
     (case s of C64 \<Rightarrow> reflect_Complex64 | C128 \<Rightarrow> reflect_Complex128)"
| "Value_Kind (VString t s) = reflect_String"
| "Value_Kind (VSlice t k xs) = reflect_Slice"
| "Value_Kind (VArray t k a xs) = reflect_Array"
| "Value_Kind (VMap t kvs) = reflect_Map"
| "Value_Kind (VStruct t a fs) = reflect_Struct"
| "Value_Kind (VPtr t n x) = reflect_Ptr"
| "Value_Kind (VInterface t x) = reflect_Interface"
| "Value_Kind (VChan t n) = reflect_Chan"
| "Value_Kind (VFunc t a) = reflect_Func"
| "Value_Kind (VUnsafePointer t a) = reflect_UnsafePointer"

fun type_of :: "Value \<Rightarrow> rtype option" where
  "type_of Zero = None"
| "type_of (VBool t b) = Some t"
| "type_of (VInt t s w) = Some t"
| "type_of (VUint t s w) = Some t"
| "type_of (VFloat t s w) = Some t"
| "type_of (VComplex t s re im) = Some t"
| "type_of (VString t s) = Some t"
| "type_of (VSlice t k xs) = Some t"
| "type_of (VArray t k a xs) = Some t"
| "type_of (VMap t kvs) = Some t"
| "type_of (VStruct t a fs) = Some t"
| "type_of (VPtr t n x) = Some t"
| "type_of (VInterface t x) = Some t"
| "type_of (VChan t n) = Some t"
| "type_of (VFunc t a) = Some t"
| "type_of (VUnsafePointer t a) = Some t"

text \<open>\<^verbatim>\<open>v.Type()\<close> panics on the zero Value.\<close>

definition Value_Type :: "Value \<Rightarrow> panic + rtype" where
  "Value_Type v = (case type_of v of None \<Rightarrow> Inl reflect_panic | Some t \<Rightarrow> Inr t)"

text \<open>
  \<^verbatim>\<open>v.Type().Elem().Kind()\<close>, which the parser evaluates on slices only; \<^verbatim>\<open>Elem()\<close> of a type
  that has no element type panics.
\<close>

fun Value_Type_Elem_Kind :: "Value \<Rightarrow> panic + Kind" where
  "Value_Type_Elem_Kind (VSlice t k xs) = Inr k"
| "Value_Type_Elem_Kind (VArray t k a xs) = Inr k"
| "Value_Type_Elem_Kind v = Inl reflect_panic"

text \<open>
  \<^verbatim>\<open>v.Interface()\<close>: the value as an \<^verbatim>\<open>interface{}\<close>, \<open>None\<close> for the nil interface. On a
  Value of kind Interface it is what the interface holds; on the zero Value it panics.
\<close>

fun Value_Interface :: "Value \<Rightarrow> panic + Value option" where
  "Value_Interface Zero = Inl reflect_panic"
| "Value_Interface (VInterface t x) = Inr x"
| "Value_Interface v = Inr (Some v)"

text \<open>The cases of the type switches over \<^verbatim>\<open>v.Interface().(type)\<close>: none matches nil.\<close>

definition is_time_Time :: "Value option \<Rightarrow> bool" where
  "is_time_Time i = (case i of None \<Rightarrow> False | Some d \<Rightarrow> type_of d = Some time_Time)"

definition is_time_Duration :: "Value option \<Rightarrow> bool" where
  "is_time_Duration i = (case i of None \<Rightarrow> False | Some d \<Rightarrow> type_of d = Some time_Duration)"

definition is_error :: "Value option \<Rightarrow> bool" where
  "is_error i =
     (case i of None \<Rightarrow> False
      | Some d \<Rightarrow> (case type_of d of None \<Rightarrow> False | Some t \<Rightarrow> Implements_error t))"

text \<open>
  The Value with its addressability set, as the operation that yields it does.
\<close>

fun set_CanAddr :: "bool \<Rightarrow> Value \<Rightarrow> Value" where
  "set_CanAddr a (VArray t k b xs) = VArray t k a xs"
| "set_CanAddr a (VStruct t b fs) = VStruct t a fs"
| "set_CanAddr a v = v"

text \<open>
  \<^verbatim>\<open>v.IsNil()\<close> and \<^verbatim>\<open>v.Elem()\<close>. The parser calls them on values of kind Interface
  and Ptr only, and on these the model is exact; \<^verbatim>\<open>Elem()\<close> of a nil pointer or
  interface is the zero Value, \<^verbatim>\<open>Elem()\<close> of a pointer is addressable and \<^verbatim>\<open>Elem()\<close> of
  an interface is not. On every other value the model returns a panic, as
  \<^verbatim>\<open>reflect\<close> does on the kinds that cannot be nil (the nil-ness of maps, slices,
  channels and functions is not recorded in a \<open>Value\<close>, and the parser never asks for
  it).
\<close>

fun Value_IsNil :: "Value \<Rightarrow> panic + bool" where
  "Value_IsNil (VPtr t n x) = Inr (x = None)"
| "Value_IsNil (VInterface t x) = Inr (x = None)"
| "Value_IsNil v = Inl reflect_panic"

fun Value_Elem :: "Value \<Rightarrow> panic + Value" where
  "Value_Elem (VPtr t n x) = Inr (case x of None \<Rightarrow> Zero | Some e \<Rightarrow> set_CanAddr True e)"
| "Value_Elem (VInterface t x) =
     Inr (case x of None \<Rightarrow> Zero | Some e \<Rightarrow> set_CanAddr False e)"
| "Value_Elem v = Inl reflect_panic"

text \<open>
  \<^verbatim>\<open>v.Len()\<close> is defined on arrays, channels, maps, slices, strings and pointers to
  arrays; on a pointer to an array it is the length of the array type.
\<close>

fun Value_Len :: "Value \<Rightarrow> panic + nat" where
  "Value_Len (VSlice t k xs) = Inr (length xs)"
| "Value_Len (VArray t k a xs) = Inr (length xs)"
| "Value_Len (VMap t kvs) = Inr (length kvs)"
| "Value_Len (VString t s) = Inr (length s)"
| "Value_Len (VChan t n) = Inr n"
| "Value_Len (VPtr t n x) = (case n of None \<Rightarrow> Inl reflect_panic | Some l \<Rightarrow> Inr l)"
| "Value_Len v = Inl reflect_panic"

text \<open>
  \<^verbatim>\<open>v.Index(i)\<close> is defined on arrays, slices and strings. An element of a slice is
  addressable, an element of an array is when the array is, a byte of a string is not.
\<close>

fun Value_Index :: "Value \<Rightarrow> nat \<Rightarrow> panic + Value" where
  "Value_Index (VSlice t k xs) i =
     (if i < length xs then Inr (set_CanAddr True (xs ! i)) else Inl reflect_panic)"
| "Value_Index (VArray t k a xs) i =
     (if i < length xs then Inr (set_CanAddr a (xs ! i)) else Inl reflect_panic)"
| "Value_Index (VString t s) i =
     (if i < length s then Inr (VUint uint8_type U8 (of_char (s ! i))) else Inl reflect_panic)"
| "Value_Index v i = Inl reflect_panic"

text \<open>
  \<^verbatim>\<open>v.MapKeys()\<close> and \<^verbatim>\<open>v.MapIndex(k)\<close> yield copies, which are not addressable; a key
  is looked up as \<^verbatim>\<open>MapKeys\<close> yields it.
\<close>

fun Value_MapKeys :: "Value \<Rightarrow> panic + Value list" where
  "Value_MapKeys (VMap t kvs) = Inr (map (\<lambda>kx. set_CanAddr False (fst kx)) kvs)"
| "Value_MapKeys v = Inl reflect_panic"

fun Value_MapIndex :: "Value \<Rightarrow> Value \<Rightarrow> panic + Value" where
  "Value_MapIndex (VMap t kvs) k =
     Inr (case map_of (map (\<lambda>kx. (set_CanAddr False (fst kx), snd kx)) kvs) (set_CanAddr False k) of
            None \<Rightarrow> Zero
          | Some x \<Rightarrow> set_CanAddr False x)"
| "Value_MapIndex v k = Inl reflect_panic"

text \<open>\<^verbatim>\<open>v.Field(i)\<close>: a field of a struct is addressable when the struct is.\<close>

fun Value_Field :: "Value \<Rightarrow> nat \<Rightarrow> panic + Value" where
  "Value_Field (VStruct t a fs) i =
     (if i < length fs then Inr (set_CanAddr a (fs ! i)) else Inl reflect_panic)"
| "Value_Field v i = Inl reflect_panic"

text \<open>
  \<^verbatim>\<open>v.FieldByIndex(index)\<close>: a one-element index is \<^verbatim>\<open>Field\<close>; otherwise the receiver must
  be a struct and each step after the first goes through a pointer to an embedded struct
  (by \<^verbatim>\<open>Elem()\<close>), panicking on a nil one.
\<close>

fun embedded :: "Value \<Rightarrow> panic + Value" where
  "embedded (VPtr t n None) = Inl reflect_panic"
| "embedded (VPtr t n (Some s)) =
     (if Value_Kind s = reflect_Struct then Inr (set_CanAddr True s) else Inr (VPtr t n (Some s)))"
| "embedded v = Inr v"

fun FieldByIndex_rest :: "Value \<Rightarrow> nat list \<Rightarrow> panic + Value" where
  "FieldByIndex_rest v [] = Inr v"
| "FieldByIndex_rest v (x # xs) =
     (case embedded v of Inl e \<Rightarrow> Inl e
      | Inr s \<Rightarrow> (case Value_Field s x of Inl e \<Rightarrow> Inl e | Inr f \<Rightarrow> FieldByIndex_rest f xs))"

fun Value_FieldByIndex :: "Value \<Rightarrow> nat list \<Rightarrow> panic + Value" where
  "Value_FieldByIndex v [x] = Value_Field v x"
| "Value_FieldByIndex v [] = (if Value_Kind v = reflect_Struct then Inr v else Inl reflect_panic)"
| "Value_FieldByIndex v (x # xs) =
     (if Value_Kind v = reflect_Struct
      then (case Value_Field v x of Inl e \<Rightarrow> Inl e | Inr f \<Rightarrow> FieldByIndex_rest f xs)
      else Inl reflect_panic)"

text \<open>The scalar accessors panic on a value of another kind, except \<^verbatim>\<open>String()\<close>.\<close>

fun Value_Bool :: "Value \<Rightarrow> panic + bool" where
  "Value_Bool (VBool t b) = Inr b"
| "Value_Bool v = Inl reflect_panic"

fun Value_Int :: "Value \<Rightarrow> panic + 64 word" where
  "Value_Int (VInt t s w) = Inr w"
| "Value_Int v = Inl reflect_panic"

fun Value_Uint :: "Value \<Rightarrow> panic + 64 word" where
  "Value_Uint (VUint t s w) = Inr w"
| "Value_Uint v = Inl reflect_panic"

fun Value_Float :: "Value \<Rightarrow> panic + 64 word" where
  "Value_Float (VFloat t s w) = Inr w"
| "Value_Float v = Inl reflect_panic"

text \<open>
  \<^verbatim>\<open>v.String()\<close> does not panic on a value that is not a string: it returns
  \<^verbatim>\<open>"<T Value>"\<close> for the value's type \<^verbatim>\<open>T\<close>, and \<^verbatim>\<open>"<invalid Value>"\<close> on the zero Value.
\<close>

fun Value_String :: "Value \<Rightarrow> string" where
  "Value_String (VString t s) = s"
| "Value_String v =
     (case type_of v of None \<Rightarrow> ''<invalid Value>''
      | Some t \<Rightarrow> ''<'' @ Type_String t @ '' Value>'')"

text \<open>
  \<^verbatim>\<open>v.Bytes()\<close> is defined on slices of bytes and on addressable arrays of bytes; it
  panics on an array of bytes that is not addressable and on every other value. An
  element of such a sequence is an unsigned integer of kind Uint8; its byte is the low
  eight bits.
\<close>

fun byte_of :: "Value \<Rightarrow> char" where
  "byte_of (VUint t s w) = char_of (unat w)"
| "byte_of v = char_of (0::nat)"

fun Value_Bytes :: "Value \<Rightarrow> panic + string" where
  "Value_Bytes (VSlice t k xs) =
     (if k = reflect_Uint8 then Inr (map byte_of xs) else Inl reflect_panic)"
| "Value_Bytes (VArray t k a xs) =
     (if k = reflect_Uint8 \<and> a then Inr (map byte_of xs) else Inl reflect_panic)"
| "Value_Bytes v = Inl reflect_panic"

text \<open>
  \<^verbatim>\<open>reflect.ValueOf(x)\<close> for an \<^verbatim>\<open>x\<close> of type \<^verbatim>\<open>interface{}\<close>: the zero Value for
  the nil interface, the value the interface holds otherwise, which is not addressable.
\<close>

definition reflect_ValueOf :: "Value option \<Rightarrow> Value" where
  "reflect_ValueOf x = (case x of None \<Rightarrow> Zero | Some d \<Rightarrow> set_CanAddr False d)"

section \<open>The parser state\<close>

text \<open>
  \<^verbatim>\<open>StructField\<close>, \<^verbatim>\<open>LookupStruct\<close> and \<^verbatim>\<open>omit\<close> are declared in other files of the
  package. The parser reads the fields \<^verbatim>\<open>Index\<close> and \<^verbatim>\<open>Name\<close> of a \<^verbatim>\<open>StructField\<close>;
  \<^verbatim>\<open>LookupStruct\<close> (from a type to its field list) and \<^verbatim>\<open>omit\<close> (the omission predicate)
  are parameters of \<open>ParseMapBegin\<close>.
\<close>

record StructField =
  Index :: "nat list"
  Name :: string

record valueParserContext =
  c_index :: nat
  c_length :: nat
  c_value :: Value
  c_keys :: "Value list option"
  c_fields :: "StructField list"

text \<open>
  Both stacks grow at the end, as \<^verbatim>\<open>append\<close> does. A nil slice of keys is \<open>None\<close>
  (\<^verbatim>\<open>ParseMapValue\<close> and \<^verbatim>\<open>ParseMapNext\<close> test \<^verbatim>\<open>ctx.keys != nil\<close>). The Go
  \<^verbatim>\<open>int\<close>s \<^verbatim>\<open>index\<close>, \<^verbatim>\<open>length\<close> and \<^verbatim>\<open>n\<close> are natural numbers: they start at
  zero, are only incremented, and count the elements of a value held in memory, so
  they never wrap.
\<close>

record ValueParser =
  stack :: "Value list"
  ctx :: "valueParserContext list"

definition NewValueParser :: "Value option \<Rightarrow> ValueParser" where
  "NewValueParser v = \<lparr>stack = [reflect_ValueOf v], ctx = []\<rparr>"

definition push :: "ValueParser \<Rightarrow> Value \<Rightarrow> ValueParser" where
  "push p v = p\<lparr>stack := stack p @ [v]\<rparr>"

text \<open>\<^verbatim>\<open>p.stack[:len(p.stack)-1]\<close> panics on the empty stack.\<close>

definition pop :: "ValueParser \<Rightarrow> panic + ValueParser" where
  "pop p = (if stack p = [] then Inl slice_bounds_out_of_range
            else Inr (p\<lparr>stack := butlast (stack p)\<rparr>))"

definition pushContext :: "ValueParser \<Rightarrow> valueParserContext \<Rightarrow> ValueParser" where
  "pushContext p c = p\<lparr>ctx := ctx p @ [c]\<rparr>"

definition popContext :: "ValueParser \<Rightarrow> panic + ValueParser" where
  "popContext p = (if ctx p = [] then Inl slice_bounds_out_of_range
                   else Inr (p\<lparr>ctx := butlast (ctx p)\<rparr>))"

text \<open>
  \<^verbatim>\<open>p.context()\<close> returns a pointer to the last context; \<open>p_context\<close> reads it and
  \<open>set_context\<close> is a write through that pointer.
\<close>

definition p_context :: "ValueParser \<Rightarrow> panic + valueParserContext" where
  "p_context p = (if ctx p = [] then Inl index_out_of_range else Inr (last (ctx p)))"

definition set_context :: "ValueParser \<Rightarrow> valueParserContext \<Rightarrow> ValueParser" where
  "set_context p c = p\<lparr>ctx := butlast (ctx p) @ [c]\<rparr>"

text \<open>An indexing expression \<^verbatim>\<open>xs[i]\<close> on a slice.\<close>

definition at_index :: "'a list \<Rightarrow> nat \<Rightarrow> panic + 'a" where
  "at_index xs i = (if i < length xs then Inr (xs ! i) else Inl index_out_of_range)"

section \<open>The parser\<close>

text \<open>
  A method of \<^verbatim>\<open>*ValueParser\<close> takes the parser state and returns either a panic or
  its results with the state it leaves. The last result of each method is its Go
  \<^verbatim>\<open>error\<close>, \<open>None\<close> for nil.
\<close>

type_synonym 'a result = "panic + ('a \<times> ValueParser)"

text \<open>
  The loop at the label \<^verbatim>\<open>dereference\<close> of \<^verbatim>\<open>value()\<close>: while the value is a non-nil
  interface or pointer, replace it by what it holds.
\<close>

function dereference :: "Value \<Rightarrow> panic + Value" where
  "dereference v =
     (if Value_Kind v = reflect_Interface \<or> Value_Kind v = reflect_Ptr
      then (case Value_IsNil v of Inl e \<Rightarrow> Inl e
            | Inr nil \<Rightarrow>
                if \<not> nil
                then (case Value_Elem v of Inl e \<Rightarrow> Inl e | Inr x \<Rightarrow> dereference x)
                else Inr v)
      else Inr v)"
  by pat_completeness auto
termination
proof (relation "measure size")
  show "wf (measure (size :: Value \<Rightarrow> nat))"
    by simp
next
  fix v :: Value and nil :: bool and x :: Value
  have same: "size (set_CanAddr a e) = size e" for a e
    by (cases e) simp_all
  assume "Value_Kind v = reflect_Interface \<or> Value_Kind v = reflect_Ptr"
    and "Value_IsNil v = Inr nil" and "\<not> nil" and "Value_Elem v = Inr x"
  then show "(x, v) \<in> measure size"
    by (cases v) (auto simp: same split: option.splits)
qed

definition p_value :: "ValueParser \<Rightarrow> panic + Value" where
  "p_value p =
     (if stack p = [] then Inl index_out_of_range
      else let v = last (stack p) in
        if \<not> Value_IsValid v then Inr v
        else (case Value_Interface v of Inl e \<Rightarrow> Inl e
              | Inr i \<Rightarrow> if is_error i then Inr v else dereference v))"

text \<open>
  The second switch of \<^verbatim>\<open>ParseType\<close>, over \<^verbatim>\<open>v.Kind()\<close>: the type a case returns, or
  \<open>None\<close> when control leaves the switch and reaches the final \<^verbatim>\<open>return\<close>.
\<close>

definition Kind_switch :: "Value \<Rightarrow> panic + Type option" where
  "Kind_switch v =
     (case Value_Kind v of
        reflect_Bool \<Rightarrow> Inr (Some objconv_Bool)
      | reflect_Int \<Rightarrow> Inr (Some objconv_Int)
      | reflect_Int8 \<Rightarrow> Inr (Some objconv_Int)
      | reflect_Int16 \<Rightarrow> Inr (Some objconv_Int)
      | reflect_Int32 \<Rightarrow> Inr (Some objconv_Int)
      | reflect_Int64 \<Rightarrow> Inr (Some objconv_Int)
      | reflect_Uint \<Rightarrow> Inr (Some objconv_Uint)
      | reflect_Uint8 \<Rightarrow> Inr (Some objconv_Uint)
      | reflect_Uint16 \<Rightarrow> Inr (Some objconv_Uint)
      | reflect_Uint32 \<Rightarrow> Inr (Some objconv_Uint)
      | reflect_Uint64 \<Rightarrow> Inr (Some objconv_Uint)
      | reflect_Uintptr \<Rightarrow> Inr (Some objconv_Uint)
      | reflect_Float32 \<Rightarrow> Inr (Some objconv_Float)
      | reflect_Float64 \<Rightarrow> Inr (Some objconv_Float)
      | reflect_String \<Rightarrow> Inr (Some objconv_String)
      | reflect_Slice \<Rightarrow>
          (case Value_Type_Elem_Kind v of Inl e \<Rightarrow> Inl e
           | Inr k \<Rightarrow> if k = reflect_Uint8 then Inr (Some objconv_Bytes)
                      else Inr (Some objconv_Array))
      | reflect_Array \<Rightarrow> Inr (Some objconv_Array)
      | reflect_Map \<Rightarrow> Inr (Some objconv_Map)
      | reflect_Struct \<Rightarrow> Inr (Some objconv_Map)
      | reflect_Interface \<Rightarrow>
          (case Value_IsNil v of Inl e \<Rightarrow> Inl e
           | Inr nil \<Rightarrow> if nil then Inr (Some objconv_Nil) else Inr None)
      | _ \<Rightarrow> Inr None)"

definition unsupported :: "rtype \<Rightarrow> error" where
  "unsupported t =
     errors_New (''objconv: unsupported type found in value parser: '' @ Type_String t)"

definition ParseType :: "ValueParser \<Rightarrow> (Type \<times> error option) result" where
  "ParseType p =
     (case p_value p of Inl e \<Rightarrow> Inl e
      | Inr v \<Rightarrow>
          if \<not> Value_IsValid v then Inr ((objconv_Nil, None), p)
          else (case Value_Interface v of Inl e \<Rightarrow> Inl e
                | Inr i \<Rightarrow>
                    if is_time_Time i then Inr ((objconv_Time, None), p)
                    else if is_time_Duration i then Inr ((objconv_Duration, None), p)
                    else if is_error i then Inr ((objconv_Error, None), p)
                    else (case Kind_switch v of Inl e \<Rightarrow> Inl e
                          | Inr (Some t) \<Rightarrow> Inr ((t, None), p)
                          | Inr None \<Rightarrow>
                              (case Value_Type v of Inl e \<Rightarrow> Inl e
                               | Inr t \<Rightarrow> Inr ((objconv_Nil, Some (unsupported t)), p)))))"

subsection \<open>The scalar getters\<close>

definition ParseNil :: "ValueParser \<Rightarrow> (error option) result" where
  "ParseNil p = Inr (None, p)"

definition ParseBool :: "ValueParser \<Rightarrow> (bool \<times> error option) result" where
  "ParseBool p =
     (case p_value p of Inl e \<Rightarrow> Inl e
      | Inr x \<Rightarrow> (case Value_Bool x of Inl e \<Rightarrow> Inl e | Inr v \<Rightarrow> Inr ((v, None), p)))"

definition ParseInt :: "ValueParser \<Rightarrow> (64 word \<times> error option) result" where
  "ParseInt p =
     (case p_value p of Inl e \<Rightarrow> Inl e
      | Inr x \<Rightarrow> (case Value_Int x of Inl e \<Rightarrow> Inl e | Inr v \<Rightarrow> Inr ((v, None), p)))"

definition ParseUint :: "ValueParser \<Rightarrow> (64 word \<times> error option) result" where
  "ParseUint p =
     (case p_value p of Inl e \<Rightarrow> Inl e
      | Inr x \<Rightarrow> (case Value_Uint x of Inl e \<Rightarrow> Inl e | Inr v \<Rightarrow> Inr ((v, None), p)))"

definition ParseFloat :: "ValueParser \<Rightarrow> (64 word \<times> error option) result" where
  "ParseFloat p =
     (case p_value p of Inl e \<Rightarrow> Inl e
      | Inr x \<Rightarrow> (case Value_Float x of Inl e \<Rightarrow> Inl e | Inr v \<Rightarrow> Inr ((v, None), p)))"

definition ParseString :: "ValueParser \<Rightarrow> (string \<times> error option) result" where
  "ParseString p =
     (case p_value p of Inl e \<Rightarrow> Inl e | Inr x \<Rightarrow> Inr ((Value_String x, None), p))"

definition ParseBytes :: "ValueParser \<Rightarrow> (string \<times> error option) result" where
  "ParseBytes p =
     (case p_value p of Inl e \<Rightarrow> Inl e
      | Inr x \<Rightarrow> (case Value_Bytes x of Inl e \<Rightarrow> Inl e | Inr v \<Rightarrow> Inr ((v, None), p)))"

text \<open>
  A type assertion \<^verbatim>\<open>x.(T)\<close> on an \<^verbatim>\<open>interface{}\<close>: the held value when the case of
  \<^verbatim>\<open>T\<close> matches, a panic otherwise. \<^verbatim>\<open>ParseTime\<close>, \<^verbatim>\<open>ParseDuration\<close> and \<^verbatim>\<open>ParseError\<close>
  return the asserted value.
\<close>

definition type_assert :: "(Value option \<Rightarrow> bool) \<Rightarrow> Value option \<Rightarrow> panic + Value" where
  "type_assert is_T i =
     (case i of None \<Rightarrow> Inl interface_conversion
      | Some d \<Rightarrow> if is_T (Some d) then Inr d else Inl interface_conversion)"

definition Parse_asserted :: "(Value option \<Rightarrow> bool) \<Rightarrow> ValueParser \<Rightarrow> (Value \<times> error option) result" where
  "Parse_asserted is_T p =
     (case p_value p of Inl e \<Rightarrow> Inl e
      | Inr x \<Rightarrow>
          (case Value_Interface x of Inl e \<Rightarrow> Inl e
           | Inr i \<Rightarrow> (case type_assert is_T i of Inl e \<Rightarrow> Inl e | Inr v \<Rightarrow> Inr ((v, None), p))))"

definition ParseTime :: "ValueParser \<Rightarrow> (Value \<times> error option) result" where
  "ParseTime p = Parse_asserted is_time_Time p"

definition ParseDuration :: "ValueParser \<Rightarrow> (Value \<times> error option) result" where
  "ParseDuration p = Parse_asserted is_time_Duration p"

definition ParseError :: "ValueParser \<Rightarrow> (Value \<times> error option) result" where
  "ParseError p = Parse_asserted is_error p"

subsection \<open>Arrays\<close>

definition ParseArrayBegin :: "ValueParser \<Rightarrow> (nat \<times> error option) result" where
  "ParseArrayBegin p =
     (case p_value p of Inl e \<Rightarrow> Inl e
      | Inr v \<Rightarrow>
          (case Value_Len v of Inl e \<Rightarrow> Inl e
           | Inr n \<Rightarrow>
               let p1 = pushContext p
                     \<lparr>c_index = 0, c_length = n, c_value = v, c_keys = None, c_fields = []\<rparr>
               in if n \<noteq> 0
                  then (case Value_Index v 0 of Inl e \<Rightarrow> Inl e
                        | Inr x \<Rightarrow> Inr ((n, None), push p1 x))
                  else Inr ((n, None), p1)))"

definition ParseArrayEnd :: "ValueParser \<Rightarrow> (error option) result" where
  "ParseArrayEnd p =
     (case p_context p of Inl e \<Rightarrow> Inl e
      | Inr c \<Rightarrow>
          (case (if c_length c \<noteq> 0 then pop p else Inr p) of Inl e \<Rightarrow> Inl e
           | Inr p1 \<Rightarrow> (case popContext p1 of Inl e \<Rightarrow> Inl e | Inr p2 \<Rightarrow> Inr (None, p2))))"

definition ParseArrayNext :: "ValueParser \<Rightarrow> (error option) result" where
  "ParseArrayNext p =
     (case p_context p of Inl e \<Rightarrow> Inl e
      | Inr c0 \<Rightarrow>
          let c = c0\<lparr>c_index := c_index c0 + 1\<rparr>; p0 = set_context p c
          in (case pop p0 of Inl e \<Rightarrow> Inl e
              | Inr p1 \<Rightarrow>
                  (case Value_Index (c_value c) (c_index c) of Inl e \<Rightarrow> Inl e
                   | Inr x \<Rightarrow> Inr (None, push p1 x))))"

subsection \<open>Maps and structs\<close>

text \<open>
  The loop of the struct branch of \<^verbatim>\<open>ParseMapBegin\<close> over \<^verbatim>\<open>s.Fields\<close>, with the two
  variables it updates, \<^verbatim>\<open>c.fields\<close> and \<^verbatim>\<open>n\<close>.
\<close>

fun range_Fields ::
  "(StructField \<Rightarrow> Value \<Rightarrow> bool) \<Rightarrow> Value \<Rightarrow> StructField list \<Rightarrow> StructField list \<times> nat
    \<Rightarrow> panic + (StructField list \<times> nat)" where
  "range_Fields omit v [] (kept, n) = Inr (kept, n)"
| "range_Fields omit v (f # fs) (kept, n) =
     (case Value_FieldByIndex v (Index f) of Inl e \<Rightarrow> Inl e
      | Inr x \<Rightarrow>
          if \<not> omit f x then range_Fields omit v fs (kept @ [f], n + 1)
          else range_Fields omit v fs (kept, n))"

text \<open>
  The context of the struct branch is built as \<^verbatim>\<open>valueParserContext{value: v}\<close>: its
  \<^verbatim>\<open>length\<close> and \<^verbatim>\<open>index\<close> are zero and its \<^verbatim>\<open>keys\<close> nil, and nothing assigns
  \<^verbatim>\<open>length\<close> afterwards.
\<close>

definition ParseMapBegin ::
  "(rtype \<Rightarrow> StructField list) \<Rightarrow> (StructField \<Rightarrow> Value \<Rightarrow> bool) \<Rightarrow> ValueParser
    \<Rightarrow> (nat \<times> error option) result" where
  "ParseMapBegin LookupStruct omit p =
     (case p_value p of Inl e \<Rightarrow> Inl e
      | Inr v \<Rightarrow>
          if Value_Kind v = reflect_Map
          then (case Value_Len v of Inl e \<Rightarrow> Inl e
                | Inr n \<Rightarrow>
                    (case Value_MapKeys v of Inl e \<Rightarrow> Inl e
                     | Inr k \<Rightarrow>
                         let p1 = pushContext p
                               \<lparr>c_index = 0, c_length = n, c_value = v, c_keys = Some k,
                                c_fields = []\<rparr>
                         in if n \<noteq> 0
                            then (case at_index k 0 of Inl e \<Rightarrow> Inl e
                                  | Inr k0 \<Rightarrow> Inr ((n, None), push p1 k0))
                            else Inr ((n, None), p1)))
          else (case Value_Type v of Inl e \<Rightarrow> Inl e
                | Inr t \<Rightarrow>
                    (case range_Fields omit v (LookupStruct t) ([], 0) of Inl e \<Rightarrow> Inl e
                     | Inr (kept, n) \<Rightarrow>
                         let p1 = pushContext p
                               \<lparr>c_index = 0, c_length = 0, c_value = v, c_keys = None,
                                c_fields = kept\<rparr>
                         in if n \<noteq> 0
                            then (case at_index kept 0 of Inl e \<Rightarrow> Inl e
                                  | Inr f \<Rightarrow>
                                      Inr ((n, None),
                                        push p1 (reflect_ValueOf (Some (VString string_type (Name f))))))
                            else Inr ((n, None), p1))))"

definition ParseMapEnd :: "ValueParser \<Rightarrow> (error option) result" where
  "ParseMapEnd p =
     (case p_context p of Inl e \<Rightarrow> Inl e
      | Inr c \<Rightarrow>
          (case (if c_length c \<noteq> 0 then pop p else Inr p) of Inl e \<Rightarrow> Inl e
           | Inr p1 \<Rightarrow> (case popContext p1 of Inl e \<Rightarrow> Inl e | Inr p2 \<Rightarrow> Inr (None, p2))))"

definition ParseMapValue :: "ValueParser \<Rightarrow> (error option) result" where
  "ParseMapValue p =
     (case p_context p of Inl e \<Rightarrow> Inl e
      | Inr c \<Rightarrow>
          (case pop p of Inl e \<Rightarrow> Inl e
           | Inr p1 \<Rightarrow>
               (case c_keys c of
                  Some keys \<Rightarrow>
                    (case at_index keys (c_index c) of Inl e \<Rightarrow> Inl e
                     | Inr k \<Rightarrow>
                         (case Value_MapIndex (c_value c) k of Inl e \<Rightarrow> Inl e
                          | Inr x \<Rightarrow> Inr (None, push p1 x)))
                | None \<Rightarrow>
                    (case at_index (c_fields c) (c_index c) of Inl e \<Rightarrow> Inl e
                     | Inr f \<Rightarrow>
                         (case Value_FieldByIndex (c_value c) (Index f) of Inl e \<Rightarrow> Inl e
                          | Inr x \<Rightarrow> Inr (None, push p1 x))))))"

definition ParseMapNext :: "ValueParser \<Rightarrow> (error option) result" where
  "ParseMapNext p =
     (case p_context p of Inl e \<Rightarrow> Inl e
      | Inr c0 \<Rightarrow>
          let c = c0\<lparr>c_index := c_index c0 + 1\<rparr>; p0 = set_context p c
          in (case pop p0 of Inl e \<Rightarrow> Inl e
              | Inr p1 \<Rightarrow>
                  (case c_keys c of
                     Some keys \<Rightarrow>
                       (case at_index keys (c_index c) of Inl e \<Rightarrow> Inl e
                        | Inr k \<Rightarrow> Inr (None, push p1 k))
                   | None \<Rightarrow>
                       (case at_index (c_fields c) (c_index c) of Inl e \<Rightarrow> Inl e
                        | Inr f \<Rightarrow>
                            Inr (None,
                              push p1 (reflect_ValueOf (Some (VString string_type (Name f)))))))))"

section \<open>Notions used to state the properties\<close>

text \<open>
  A wrapper layer is a pointer or an interface; \<open>nonnil_wrapper\<close> is the test the loop of
  \<^verbatim>\<open>value()\<close> makes before it unwraps one, and \<open>held\<close> is what \<^verbatim>\<open>Elem()\<close> then yields.
\<close>

definition nonnil_wrapper :: "Value \<Rightarrow> bool" where
  "nonnil_wrapper v =
     ((Value_Kind v = reflect_Interface \<or> Value_Kind v = reflect_Ptr) \<and> Value_IsNil v = Inr False)"

definition held :: "Value \<Rightarrow> Value" where
  "held v = (case Value_Elem v of Inl e \<Rightarrow> v | Inr x \<Rightarrow> x)"

text \<open>
  A value of one of the domain types: the first switch of \<^verbatim>\<open>ParseType\<close> classifies it
  before its kind is looked at.
\<close>

definition domain_typed :: "Value \<Rightarrow> bool" where
  "domain_typed v =
     (case Value_Interface v of Inl e \<Rightarrow> False
      | Inr i \<Rightarrow> is_time_Time i \<or> is_time_Duration i \<or> is_error i)"

text \<open>\<open>ParseType_again n\<close> calls \<^verbatim>\<open>ParseType\<close> \<open>n + 1\<close> times in a row and returns what the last call returns.\<close>

fun ParseType_again :: "nat \<Rightarrow> ValueParser \<Rightarrow> (Type \<times> error option) result" where
  "ParseType_again 0 p = ParseType p"
| "ParseType_again (Suc n) p =
     (case ParseType p of Inl e \<Rightarrow> Inl e | Inr (r, p') \<Rightarrow> ParseType_again n p')"

text \<open>A call that returns, returns the nil error.\<close>

definition nil_error :: "('a \<times> error option) result \<Rightarrow> bool" where
  "nil_error r = (case r of Inl e \<Rightarrow> True | Inr ((v, err), p') \<Rightarrow> err = None)"

text \<open>The kinds on which \<^verbatim>\<open>Int()\<close>, \<^verbatim>\<open>Uint()\<close> and \<^verbatim>\<open>Float()\<close> are defined.\<close>

definition Int_kind :: "Kind \<Rightarrow> bool" where
  "Int_kind k =
     (k = reflect_Int \<or> k = reflect_Int8 \<or> k = reflect_Int16 \<or> k = reflect_Int32
      \<or> k = reflect_Int64)"

definition Uint_kind :: "Kind \<Rightarrow> bool" where
  "Uint_kind k =
     (k = reflect_Uint \<or> k = reflect_Uint8 \<or> k = reflect_Uint16 \<or> k = reflect_Uint32
      \<or> k = reflect_Uint64 \<or> k = reflect_Uintptr)"

definition Float_kind :: "Kind \<Rightarrow> bool" where
  "Float_kind k = (k = reflect_Float32 \<or> k = reflect_Float64)"

text \<open>
  The values on which \<^verbatim>\<open>Bytes()\<close> is defined: a slice of bytes, an addressable array of
  bytes; \<open>elements\<close> lists the elements of a slice or an array.
\<close>

fun byte_sequence :: "Value \<Rightarrow> bool" where
  "byte_sequence (VSlice t k xs) = (k = reflect_Uint8)"
| "byte_sequence (VArray t k a xs) = (k = reflect_Uint8 \<and> a)"
| "byte_sequence v = False"

fun elements :: "Value \<Rightarrow> Value list" where
  "elements (VSlice t k xs) = xs"
| "elements (VArray t k a xs) = xs"
| "elements v = []"

subsection \<open>Example values\<close>

definition int_type :: rtype where
  "int_type = rtype ''int'' False"

definition int5 :: Value where
  "int5 = VInt int_type I 5"

definition nil_int_ptr :: Value where
  "nil_int_ptr = VPtr (rtype ''*int'' False) None None"

definition boxed_int5 :: Value where
  "boxed_int5 =
     VPtr (rtype ''*interface {}'' False) None
       (Some (VInterface (rtype ''interface {}'' False) (Some int5)))"

definition func_value :: Value where
  "func_value = VFunc (rtype ''func()'' False) 1"

definition byte_array :: Value where
  "byte_array =
     VArray (rtype ''[2]uint8'' False) reflect_Uint8 False
       [VUint uint8_type U8 104, VUint uint8_type U8 105]"

text \<open>A pointer to that array.\<close>

definition byte_array_ptr :: Value where
  "byte_array_ptr = VPtr (rtype ''*[2]uint8'' False) (Some 2) (Some byte_array)"

text \<open>A nil pointer to an array of no element, and one to an array of three.\<close>

definition nil_array0_ptr :: Value where
  "nil_array0_ptr = VPtr (rtype ''*[0]int'' False) (Some 0) None"

definition nil_array3_ptr :: Value where
  "nil_array3_ptr = VPtr (rtype ''*[3]int'' False) (Some 3) None"

definition byte_slice :: Value where
  "byte_slice =
     VSlice (rtype ''[]uint8'' False) reflect_Uint8
       [VUint uint8_type U8 104, VUint uint8_type U8 105]"

definition ints123 :: Value where
  "ints123 =
     VSlice (rtype ''[]int'' False) reflect_Int
       [VInt int_type I 1, VInt int_type I 2, VInt int_type I 3]"

definition string_key :: Value where
  "string_key = VString string_type ''k''"

definition map_k1 :: Value where
  "map_k1 = VMap (rtype ''map[string]int'' False) [(string_key, VInt int_type I 1)]"

text \<open>The parser on \<open>map_k1\<close> after \<^verbatim>\<open>ParseMapBegin\<close>: the key is on top of the map.\<close>

definition map_k1_begun :: ValueParser where
  "map_k1_begun =
     \<lparr>stack = [map_k1, string_key],
      ctx = [\<lparr>c_index = 0, c_length = 1, c_value = map_k1, c_keys = Some [string_key],
              c_fields = []\<rparr>]\<rparr>"

text \<open>A field lookup that knows no struct type, and the omission predicate that omits nothing.\<close>

definition no_fields :: "rtype \<Rightarrow> StructField list" where
  "no_fields t = []"

definition omit_never :: "StructField \<Rightarrow> Value \<Rightarrow> bool" where
  "omit_never f x = False"

subsection \<open>Struct fields and their omission\<close>

text \<open>
  A field is accessible in a struct value when \<^verbatim>\<open>FieldByIndex\<close> on its index path does
  not panic; it is omitted when the omission predicate holds of the field and its value.
  The surviving fields are those not omitted, in the order of the field list.
\<close>

definition accessible :: "Value \<Rightarrow> StructField \<Rightarrow> bool" where
  "accessible v f = (case Value_FieldByIndex v (Index f) of Inl e \<Rightarrow> False | Inr x \<Rightarrow> True)"

definition field_omitted :: "(StructField \<Rightarrow> Value \<Rightarrow> bool) \<Rightarrow> Value \<Rightarrow> StructField \<Rightarrow> bool" where
  "field_omitted omit v f =
     (case Value_FieldByIndex v (Index f) of Inl e \<Rightarrow> False | Inr x \<Rightarrow> omit f x)"

definition surviving ::
  "(StructField \<Rightarrow> Value \<Rightarrow> bool) \<Rightarrow> Value \<Rightarrow> StructField list \<Rightarrow> StructField list" where
  "surviving omit v fs = filter (\<lambda>f. \<not> field_omitted omit v f) fs"

definition struct_context :: "Value \<Rightarrow> StructField list \<Rightarrow> valueParserContext" where
  "struct_context v kept =
     \<lparr>c_index = 0, c_length = 0, c_value = v, c_keys = None, c_fields = kept\<rparr>"

text \<open>
  Modelled from the spec: an omit-zero omission predicate (``omit when the field holds its
  zero/default value''); the package's own \<^verbatim>\<open>omit\<close> is in another file. It is used for
  the example record \<^verbatim>\<open>{A: 0, B: "x"}\<close> only.
\<close>

fun is_zero :: "Value \<Rightarrow> bool" where
  "is_zero (VBool t b) = (\<not> b)"
| "is_zero (VInt t s w) = (w = 0)"
| "is_zero (VUint t s w) = (w = 0)"
| "is_zero (VFloat t s w) = (w = 0)"
| "is_zero (VString t s) = (s = [])"
| "is_zero (VPtr t n x) = (x = None)"
| "is_zero (VInterface t x) = (x = None)"
| "is_zero v = False"

definition omit_zero :: "StructField \<Rightarrow> Value \<Rightarrow> bool" where
  "omit_zero f x = is_zero x"

definition AB_type :: rtype where
  "AB_type = rtype ''struct { A int; B string }'' False"

definition record_AB :: Value where
  "record_AB = VStruct AB_type False [VInt int_type I 0, VString string_type ''x'']"

definition field_A :: StructField where
  "field_A = \<lparr>Index = [0], Name = ''A''\<rparr>"

definition field_B :: StructField where
  "field_B = \<lparr>Index = [1], Name = ''B''\<rparr>"

definition lookup_AB :: "rtype \<Rightarrow> StructField list" where
  "lookup_AB t = (if t = AB_type then [field_A, field_B] else [])"

text \<open>The parser on \<open>record_AB\<close> after \<^verbatim>\<open>ParseMapBegin\<close>, and after \<^verbatim>\<open>ParseMapValue\<close>.\<close>

definition record_AB_begun :: ValueParser where
  "record_AB_begun =
     \<lparr>stack = [record_AB, VString string_type ''B''],
      ctx = [struct_context record_AB [field_B]]\<rparr>"

definition record_AB_at_value :: ValueParser where
  "record_AB_at_value =
     \<lparr>stack = [record_AB, VString string_type ''x''],
      ctx = [struct_context record_AB [field_B]]\<rparr>"

text \<open>The parser on \<open>ints123\<close> at its element of index \<open>i\<close>.\<close>

definition ints123_at :: "nat \<Rightarrow> ValueParser" where
  "ints123_at i =
     \<lparr>stack = [ints123, VInt int_type I (of_nat (i + 1))],
      ctx = [\<lparr>c_index = i, c_length = 3, c_value = ints123, c_keys = None, c_fields = []\<rparr>]\<rparr>"

section \<open>Driving the parser\<close>

text \<open>
  Modelled from the spec: the decoder that consumes the protocol is not among the source
  files; \<open>decode\<close> follows the calling discipline the spec gives for it. It asks
  \<^verbatim>\<open>ParseType\<close>, then calls the getter of a scalar type (and drops the value), or
  traverses a composite: \<^verbatim>\<open>Begin\<close>, the children with one \<^verbatim>\<open>Next\<close> between each two
  of them, \<^verbatim>\<open>End\<close>; for a map each entry is a key, \<^verbatim>\<open>ParseMapValue\<close>, a value. This
  parser always returns a known length from \<^verbatim>\<open>Begin\<close>. A panic or a returned error ends
  the traversal. The first argument of \<open>decode\<close> after the struct parameters bounds the
  nesting depth; the tally counts the \<^verbatim>\<open>Begin\<close> and the \<^verbatim>\<open>End\<close> calls made.
\<close>

datatype abort = Panicked panic | Failed error | OutOfFuel

type_synonym tally = "nat \<times> nat"

type_synonym run = "abort + (tally \<times> ValueParser)"

definition call :: "(error option) result \<Rightarrow> (ValueParser \<Rightarrow> run) \<Rightarrow> run" where
  "call r k =
     (case r of Inl e \<Rightarrow> Inl (Panicked e)
      | Inr (err, p) \<Rightarrow> (case err of Some e \<Rightarrow> Inl (Failed e) | None \<Rightarrow> k p))"

definition call_with :: "('a \<times> error option) result \<Rightarrow> ('a \<Rightarrow> ValueParser \<Rightarrow> run) \<Rightarrow> run" where
  "call_with r k =
     (case r of Inl e \<Rightarrow> Inl (Panicked e)
      | Inr ((x, err), p) \<Rightarrow> (case err of Some e \<Rightarrow> Inl (Failed e) | None \<Rightarrow> k x p))"

primrec array_elements :: "(tally \<times> ValueParser \<Rightarrow> run) \<Rightarrow> nat \<Rightarrow> tally \<times> ValueParser \<Rightarrow> run" where
  "array_elements decode_value 0 s = Inr s"
| "array_elements decode_value (Suc k) s =
     (case decode_value s of Inl a \<Rightarrow> Inl a
      | Inr (t, p) \<Rightarrow>
          if k = 0 then Inr (t, p)
          else call (ParseArrayNext p) (\<lambda>p'. array_elements decode_value k (t, p')))"

primrec map_entries :: "(tally \<times> ValueParser \<Rightarrow> run) \<Rightarrow> nat \<Rightarrow> tally \<times> ValueParser \<Rightarrow> run" where
  "map_entries decode_value 0 s = Inr s"
| "map_entries decode_value (Suc k) s =
     (case decode_value s of Inl a \<Rightarrow> Inl a
      | Inr (t, p) \<Rightarrow>
          call (ParseMapValue p)
            (\<lambda>p1. case decode_value (t, p1) of Inl a \<Rightarrow> Inl a
                 | Inr (t2, p2) \<Rightarrow>
                     if k = 0 then Inr (t2, p2)
                     else call (ParseMapNext p2) (\<lambda>p3. map_entries decode_value k (t2, p3))))"

primrec decode ::
  "(rtype \<Rightarrow> StructField list) \<Rightarrow> (StructField \<Rightarrow> Value \<Rightarrow> bool) \<Rightarrow> nat
    \<Rightarrow> tally \<times> ValueParser \<Rightarrow> run" where
  "decode LookupStruct omit 0 = (\<lambda>s. Inl OutOfFuel)"
| "decode LookupStruct omit (Suc fuel) =
     (\<lambda>(t, p).
        call_with (ParseType p)
          (\<lambda>ty p1.
             case ty of
               objconv_Nil \<Rightarrow> call (ParseNil p1) (\<lambda>p2. Inr (t, p2))
             | objconv_Bool \<Rightarrow> call_with (ParseBool p1) (\<lambda>x p2. Inr (t, p2))
             | objconv_Int \<Rightarrow> call_with (ParseInt p1) (\<lambda>x p2. Inr (t, p2))
             | objconv_Uint \<Rightarrow> call_with (ParseUint p1) (\<lambda>x p2. Inr (t, p2))
             | objconv_Float \<Rightarrow> call_with (ParseFloat p1) (\<lambda>x p2. Inr (t, p2))
             | objconv_String \<Rightarrow> call_with (ParseString p1) (\<lambda>x p2. Inr (t, p2))
             | objconv_Bytes \<Rightarrow> call_with (ParseBytes p1) (\<lambda>x p2. Inr (t, p2))
             | objconv_Time \<Rightarrow> call_with (ParseTime p1) (\<lambda>x p2. Inr (t, p2))
             | objconv_Duration \<Rightarrow> call_with (ParseDuration p1) (\<lambda>x p2. Inr (t, p2))
             | objconv_Error \<Rightarrow> call_with (ParseError p1) (\<lambda>x p2. Inr (t, p2))
             | objconv_Array \<Rightarrow>
                 call_with (ParseArrayBegin p1)
                   (\<lambda>n p2.
                      case array_elements (decode LookupStruct omit fuel) n
                             ((fst t + 1, snd t), p2) of
                        Inl a \<Rightarrow> Inl a
                      | Inr (t3, p3) \<Rightarrow>
                          call (ParseArrayEnd p3) (\<lambda>p4. Inr ((fst t3, snd t3 + 1), p4)))
             | objconv_Map \<Rightarrow>
                 call_with (ParseMapBegin LookupStruct omit p1)
                   (\<lambda>n p2.
                      case map_entries (decode LookupStruct omit fuel) n
                             ((fst t + 1, snd t), p2) of
                        Inl a \<Rightarrow> Inl a
                      | Inr (t3, p3) \<Rightarrow>
                          call (ParseMapEnd p3) (\<lambda>p4. Inr ((fst t3, snd t3 + 1), p4)))))"

subsection \<open>The values whose traversal restores the parser\<close>

text \<open>
  \<open>top_error\<close>: the value on top of the stack is returned by \<^verbatim>\<open>value()\<close> without
  unwrapping, because its dynamic type implements \<^verbatim>\<open>error\<close>.

  \<open>walkable\<close> follows the unwrapping of \<^verbatim>\<open>value()\<close> and the classification of
  \<^verbatim>\<open>ParseType\<close>: scalars, values of the domain types, nil interfaces, byte slices,
  slices, arrays and maps whose children are again of this kind, and structs none of
  whose fields survives the omission predicate. A child is taken as the operation that
  reaches it yields it (\<^verbatim>\<open>Elem\<close>, \<^verbatim>\<open>Index\<close>, \<^verbatim>\<open>MapKeys\<close>, \<^verbatim>\<open>MapIndex\<close>). A nil
  pointer, a complex number, a channel, a function and an unsafe pointer are unsupported
  unless of a domain type. A struct with a surviving field is left out.
\<close>

definition top_error :: "Value \<Rightarrow> bool" where
  "top_error v = (case Value_Interface v of Inl e \<Rightarrow> False | Inr i \<Rightarrow> is_error i)"

function walkable :: "(rtype \<Rightarrow> StructField list) \<Rightarrow> (StructField \<Rightarrow> Value \<Rightarrow> bool) \<Rightarrow> Value \<Rightarrow> bool" where
  "walkable L om Zero = True"
| "walkable L om (VBool t b) = True"
| "walkable L om (VInt t s w) = True"
| "walkable L om (VUint t s w) = True"
| "walkable L om (VFloat t s w) = True"
| "walkable L om (VString t s) = True"
| "walkable L om (VComplex t s re im) = domain_typed (VComplex t s re im)"
| "walkable L om (VChan t n) = domain_typed (VChan t n)"
| "walkable L om (VFunc t a) = domain_typed (VFunc t a)"
| "walkable L om (VUnsafePointer t a) = domain_typed (VUnsafePointer t a)"
| "walkable L om (VPtr t n None) = domain_typed (VPtr t n None)"
| "walkable L om (VPtr t n (Some x)) = walkable L om (set_CanAddr True x)"
| "walkable L om (VInterface t None) = True"
| "walkable L om (VInterface t (Some x)) = walkable L om (set_CanAddr False x)"
| "walkable L om (VSlice t k xs) =
     list_all (\<lambda>x. top_error x \<or> walkable L om (set_CanAddr True x)) xs"
| "walkable L om (VArray t k a xs) =
     list_all (\<lambda>x. top_error x \<or> walkable L om (set_CanAddr a x)) xs"
| "walkable L om (VMap t kvs) =
     list_all (\<lambda>kx. (top_error (fst kx) \<or> walkable L om (set_CanAddr False (fst kx)))
                   \<and> (top_error (snd kx) \<or> walkable L om (set_CanAddr False (snd kx)))) kvs"
| "walkable L om (VStruct t a fs) =
     (domain_typed (VStruct t a fs)
      \<or> list_all (accessible (VStruct t a fs)) (L t) \<and> surviving om (VStruct t a fs) (L t) = [])"
  by pat_completeness auto
termination
proof -
  have same: "size (set_CanAddr a e) = size e" for a e
    by (cases e) simp_all
  have element: "size x < Suc (size_list size xs)" if "x \<in> set xs" for x :: Value and xs
    using size_list_estimation' [OF that, of "size x" size] by simp
  have entry: "size (fst kx) < Suc (size_list (size_prod size size) kvs)
      \<and> size (snd kx) < Suc (size_list (size_prod size size) kvs)"
    if "kx \<in> set kvs" for kx :: "Value \<times> Value" and kvs
    using size_list_estimation' [OF that, of "size_prod size size kx" "size_prod size size"]
    by (cases kx) simp
  show ?thesis
    by (relation "measure (\<lambda>(L, om, v). size v)") (auto simp: same element entry)
qed

definition plain :: "(rtype \<Rightarrow> StructField list) \<Rightarrow> (StructField \<Rightarrow> Value \<Rightarrow> bool) \<Rightarrow> Value \<Rightarrow> bool" where
  "plain L om v = (top_error v \<or> walkable L om v)"

text \<open>The parser on \<open>record_AB\<close> after a complete traversal.\<close>

definition record_AB_done :: ValueParser where
  "record_AB_done = \<lparr>stack = [record_AB, VString string_type ''x''], ctx = []\<rparr>"

subsection \<open>Notions used in the proof of the traversal property\<close>

text \<open>
  A resolved value that \<open>decode\<close> handles with one getter call. \<open>restores dv x\<close>: on
  every parser whose current value is \<open>x\<close>, the traversal \<open>dv\<close> completes, adds the
  same number to both counts of the tally and returns the parser it started from.
  \<open>at_element s cs c xs i\<close> is the parser during the traversal of a composite: its child
  of index \<open>i\<close> on top of the value stack \<open>s\<close>, its context with index \<open>i\<close> on
  top of the context stack \<open>cs\<close>. \<open>map_keys\<close> lists what \<^verbatim>\<open>MapKeys\<close> yields for a
  map, \<open>map_values\<close> what \<^verbatim>\<open>MapIndex\<close> yields for these keys in their order.
\<close>

fun leaf :: "Value \<Rightarrow> bool" where
  "leaf Zero = True"
| "leaf (VBool t b) = True"
| "leaf (VInt t s w) = True"
| "leaf (VUint t s w) = True"
| "leaf (VFloat t s w) = True"
| "leaf (VString t s) = True"
| "leaf (VSlice t k xs) = (k = reflect_Uint8)"
| "leaf (VInterface t None) = True"
| "leaf v = False"

definition restores :: "(tally \<times> ValueParser \<Rightarrow> run) \<Rightarrow> Value \<Rightarrow> bool" where
  "restores dv x =
     (\<forall>t q. stack q \<noteq> [] \<longrightarrow> last (stack q) = x
        \<longrightarrow> (\<exists>m. dv (t, q) = Inr ((fst t + m, snd t + m), q)))"

definition at_element ::
  "Value list \<Rightarrow> valueParserContext list \<Rightarrow> valueParserContext \<Rightarrow> Value list \<Rightarrow> nat
    \<Rightarrow> ValueParser" where
  "at_element s cs c xs i = \<lparr>stack = s @ [xs ! i], ctx = cs @ [c\<lparr>c_index := i\<rparr>]\<rparr>"

definition map_keys :: "(Value \<times> Value) list \<Rightarrow> Value list" where
  "map_keys kvs = map (\<lambda>kx. set_CanAddr False (fst kx)) kvs"

definition map_values :: "(Value \<times> Value) list \<Rightarrow> Value list" where
  "map_values kvs =
     map (\<lambda>k. case map_of (map (\<lambda>kx. (set_CanAddr False (fst kx), snd kx)) kvs)
                       (set_CanAddr False k) of
                None \<Rightarrow> Zero
              | Some x \<Rightarrow> set_CanAddr False x)
         (map_keys kvs)"

text \<open>A slice of interfaces holding a map, nothing, a pointer to a boxed integer and a slice.\<close>

definition nested :: Value where
  "nested =
     VSlice (rtype ''[]interface {}'' False) reflect_Interface
       [VInterface (rtype ''interface {}'' False) (Some map_k1),
        VInterface (rtype ''interface {}'' False) None,
        VInterface (rtype ''interface {}'' False) (Some boxed_int5),
        VInterface (rtype ''interface {}'' False) (Some ints123)]"

section \<open>Basic facts\<close>

declare dereference.simps [simp del]

lemmas size_splits = int_size.splits uint_size.splits float_size.splits complex_size.splits

lemmas type_switch_defs =
  is_time_Time_def is_time_Duration_def is_error_def time_Time_def time_Duration_def

lemma size_set_CanAddr [simp]: "size (set_CanAddr a v) = size v"
  by (cases v) simp_all

lemma type_of_set_CanAddr [simp]: "type_of (set_CanAddr a v) = type_of v"
  by (cases v) simp_all

lemma Value_Kind_set_CanAddr [simp]: "Value_Kind (set_CanAddr a v) = Value_Kind v"
  by (cases v) simp_all

lemma set_CanAddr_twice [simp]: "set_CanAddr a (set_CanAddr b v) = set_CanAddr a v"
  by (cases v) simp_all

lemma set_CanAddr_examples [simp]:
  "set_CanAddr a int5 = int5" "set_CanAddr a nil_int_ptr = nil_int_ptr"
  "set_CanAddr a boxed_int5 = boxed_int5" "set_CanAddr a func_value = func_value"
  "set_CanAddr a byte_slice = byte_slice" "set_CanAddr a ints123 = ints123"
  "set_CanAddr a string_key = string_key" "set_CanAddr a map_k1 = map_k1"
  "set_CanAddr a nested = nested"
  "set_CanAddr False byte_array = byte_array" "set_CanAddr False record_AB = record_AB"
  by (simp_all add: int5_def nil_int_ptr_def boxed_int5_def func_value_def byte_slice_def
      ints123_def string_key_def map_k1_def nested_def byte_array_def record_AB_def)

lemma dereference_step: "nonnil_wrapper v \<Longrightarrow> dereference v = dereference (held v)"
  by (subst dereference.simps, cases v) (auto simp: nonnil_wrapper_def held_def split: size_splits)

lemma dereference_stop: "\<not> nonnil_wrapper v \<Longrightarrow> dereference v = Inr v"
  by (subst dereference.simps, cases v) (auto simp: nonnil_wrapper_def split: size_splits)

lemma size_held: "nonnil_wrapper v \<Longrightarrow> size (held v) < size v"
  by (cases v) (auto simp: nonnil_wrapper_def held_def split: option.splits)

lemma p_value_New:
  "p_value (NewValueParser x) =
     (let v = reflect_ValueOf x in
        if \<not> Value_IsValid v then Inr v
        else (case Value_Interface v of Inl e \<Rightarrow> Inl e
              | Inr i \<Rightarrow> if is_error i then Inr v else dereference v))"
  by (simp add: p_value_def NewValueParser_def)

lemma ParseType_resolved:
  "p_value p = Inr v \<Longrightarrow>
   ParseType p =
     (if \<not> Value_IsValid v then Inr ((objconv_Nil, None), p)
      else (case Value_Interface v of Inl e \<Rightarrow> Inl e
            | Inr i \<Rightarrow>
                if is_time_Time i then Inr ((objconv_Time, None), p)
                else if is_time_Duration i then Inr ((objconv_Duration, None), p)
                else if is_error i then Inr ((objconv_Error, None), p)
                else (case Kind_switch v of Inl e \<Rightarrow> Inl e
                      | Inr (Some t) \<Rightarrow> Inr ((t, None), p)
                      | Inr None \<Rightarrow>
                          (case Value_Type v of Inl e \<Rightarrow> Inl e
                           | Inr t \<Rightarrow> Inr ((objconv_Nil, Some (unsupported t)), p)))))"
  by (simp add: ParseType_def)

lemma ParseType_state: "ParseType p = Inr (r, p') \<Longrightarrow> p' = p"
  by (auto simp: ParseType_def split: sum.splits if_splits option.splits)

lemma p_value_int5: "p_value (NewValueParser (Some int5)) = Inr int5"
  by (simp add: p_value_New reflect_ValueOf_def int5_def Value_IsValid_def
      type_switch_defs dereference_stop nonnil_wrapper_def int_type_def)

section \<open>Resolving the current value\<close>

lemma dereference_chain:
  "\<exists>n. dereference v = Inr ((held ^^ n) v) \<and> (\<forall>i<n. nonnil_wrapper ((held ^^ i) v))
     \<and> \<not> nonnil_wrapper ((held ^^ n) v) \<and> n \<le> size v"
proof (induction v rule: measure_induct_rule [where f = size])
  case (less v)
  show ?case
  proof (cases "nonnil_wrapper v")
    case False
    then show ?thesis
      by (intro exI [of _ 0]) (simp add: dereference_stop)
  next
    case True
    from less [OF size_held [OF True]] obtain n where
      d: "dereference (held v) = Inr ((held ^^ n) (held v))"
      and w: "\<forall>i<n. nonnil_wrapper ((held ^^ i) (held v))"
      and s: "\<not> nonnil_wrapper ((held ^^ n) (held v))"
      and b: "n \<le> size (held v)"
      by blast
    have "\<forall>i<Suc n. nonnil_wrapper ((held ^^ i) v)"
    proof (intro allI impI)
      fix i assume "i < Suc n"
      then show "nonnil_wrapper ((held ^^ i) v)"
        using True w by (cases i) (simp_all add: funpow_swap1)
    qed
    moreover have "dereference v = Inr ((held ^^ Suc n) v)"
      using d True by (simp add: dereference_step funpow_swap1)
    moreover have "\<not> nonnil_wrapper ((held ^^ Suc n) v)"
      using s by (simp add: funpow_swap1)
    moreover have "Suc n \<le> size v"
      using b size_held [OF True] by simp
    ultimately show ?thesis
      by blast
  qed
qed

text \<open>
  Claim C9. \<^verbatim>\<open>value()\<close> returns on every non-empty stack (every value of the model is
  acyclic, and the loop is total on them). The zero Value is returned as it is; a top
  value whose dynamic type implements \<^verbatim>\<open>error\<close> is returned as it is, before any
  unwrapping; otherwise the result is reached from the top value by \<open>n\<close> unwrapping
  steps, each taken on a non-nil pointer or interface, and the result is the first
  value that is not a non-nil pointer or interface: a non-wrapper or a nil wrapper. The
  number of steps is bounded by the size of the value.
\<close>

theorem value_resolution:
  assumes "stack p \<noteq> []"
  shows "\<exists>r. p_value p = Inr r \<and>
     (if \<not> Value_IsValid (last (stack p)) then r = last (stack p)
      else if \<exists>i. Value_Interface (last (stack p)) = Inr i \<and> is_error i then r = last (stack p)
      else \<exists>n. r = (held ^^ n) (last (stack p))
             \<and> (\<forall>i<n. nonnil_wrapper ((held ^^ i) (last (stack p))))
             \<and> \<not> nonnil_wrapper r \<and> n \<le> size (last (stack p)))"
proof (cases "Value_IsValid (last (stack p))")
  case False
  with assms show ?thesis by (simp add: p_value_def)
next
  case True
  then obtain i where i: "Value_Interface (last (stack p)) = Inr i"
    by (cases "last (stack p)") (simp_all add: Value_IsValid_def)
  show ?thesis
  proof (cases "is_error i")
    case True
    with assms i \<open>Value_IsValid (last (stack p))\<close> show ?thesis
      by (simp add: p_value_def)
  next
    case False
    from dereference_chain [of "last (stack p)"] obtain n where
      "dereference (last (stack p)) = Inr ((held ^^ n) (last (stack p)))"
      "\<forall>i<n. nonnil_wrapper ((held ^^ i) (last (stack p)))"
      "\<not> nonnil_wrapper ((held ^^ n) (last (stack p)))" "n \<le> size (last (stack p))"
      by blast
    with assms i False \<open>Value_IsValid (last (stack p))\<close> show ?thesis
      by (auto simp: p_value_def)
  qed
qed

text \<open>
  The theorem at a pointer to an interface holding the integer 5: two layers are
  unwrapped and the integer is the result.
\<close>

theorem value_resolution_witness:
  "stack (NewValueParser (Some boxed_int5)) \<noteq> []
   \<and> (\<exists>r. p_value (NewValueParser (Some boxed_int5)) = Inr r \<and> \<not> nonnil_wrapper r)
   \<and> p_value (NewValueParser (Some boxed_int5)) = Inr int5"
proof -
  have s: "stack (NewValueParser (Some boxed_int5)) \<noteq> []"
    by (simp add: NewValueParser_def)
  have e: "\<not> (\<exists>i. Value_Interface (last (stack (NewValueParser (Some boxed_int5)))) = Inr i \<and> is_error i)"
    by (simp add: NewValueParser_def reflect_ValueOf_def boxed_int5_def is_error_def)
  have v: "Value_IsValid (last (stack (NewValueParser (Some boxed_int5))))"
    by (simp add: NewValueParser_def reflect_ValueOf_def boxed_int5_def Value_IsValid_def)
  have "p_value (NewValueParser (Some boxed_int5)) = Inr int5"
    by (simp add: p_value_New reflect_ValueOf_def boxed_int5_def Value_IsValid_def is_error_def
        dereference_step dereference_stop nonnil_wrapper_def held_def int5_def)
  with value_resolution [OF s] e v s show ?thesis
    by auto
qed

section \<open>Classification\<close>

text \<open>
  Claim C2, on the nil pointer. \<^verbatim>\<open>value()\<close> stops at a nil \<^verbatim>\<open>*int\<close> and returns it; its
  kind is Ptr, for which the switch of \<^verbatim>\<open>ParseType\<close> has no case (the nil test is made
  for kind Interface only), so the call ends at the final \<^verbatim>\<open>return\<close> with the
  unsupported-type error instead of \<^verbatim>\<open>(Nil, nil)\<close>.
\<close>

theorem ParseType_nil_pointer:
  "ParseType (NewValueParser (Some nil_int_ptr)) =
     Inr ((objconv_Nil,
           Some (errors_New ''objconv: unsupported type found in value parser: *int'')),
          NewValueParser (Some nil_int_ptr))"
  by (simp add: ParseType_def p_value_New reflect_ValueOf_def nil_int_ptr_def
      Value_IsValid_def type_switch_defs dereference_stop nonnil_wrapper_def
      Kind_switch_def Value_Type_def unsupported_def)

text \<open>
  The sibling case: the nil interface, as the root value or as the current value (an
  element of a slice of interfaces, say), is classified as Nil with no error.
\<close>

lemma ParseType_nil_interface:
  "ParseType (NewValueParser None) = Inr ((objconv_Nil, None), NewValueParser None)"
  "ParseType \<lparr>stack = s @ [VInterface t None], ctx = c\<rparr> =
     Inr ((objconv_Nil, None), \<lparr>stack = s @ [VInterface t None], ctx = c\<rparr>)"
  by (simp_all add: ParseType_def p_value_def NewValueParser_def reflect_ValueOf_def
      Value_IsValid_def type_switch_defs dereference_stop nonnil_wrapper_def Kind_switch_def)

text \<open>
  Claim C6. When the resolved value is not of a domain type and its kind is one the
  switch of \<^verbatim>\<open>ParseType\<close> has no case for (complex numbers, channels, functions, unsafe
  pointers), \<^verbatim>\<open>ParseType\<close> returns \<^verbatim>\<open>Nil\<close> with the error whose message ends with the
  name of the value's type, and the parser state (both stacks) is the one it was called
  in.
\<close>

theorem ParseType_unsupported:
  assumes "p_value p = Inr v"
    and "Value_Kind v = reflect_Complex64 \<or> Value_Kind v = reflect_Complex128
         \<or> Value_Kind v = reflect_Chan \<or> Value_Kind v = reflect_Func
         \<or> Value_Kind v = reflect_UnsafePointer"
    and "\<not> domain_typed v"
  shows "\<exists>t. Value_Type v = Inr t \<and>
    ParseType p =
      Inr ((objconv_Nil,
            Some (errors_New (''objconv: unsupported type found in value parser: '' @ Type_String t))),
           p)"
proof -
  from assms(2) have valid: "Value_IsValid v"
    by (cases v) (simp_all add: Value_IsValid_def)
  from assms(2) have iface: "Value_Interface v = Inr (Some v)"
    by (cases v) simp_all
  from assms(2) obtain t where t: "Value_Type v = Inr t"
    by (cases v) (simp_all add: Value_Type_def)
  from assms(2) have sw: "Kind_switch v = Inr None"
    by (cases v) (auto simp: Kind_switch_def split: size_splits)
  from assms(3) iface
  have "\<not> is_time_Time (Some v)" "\<not> is_time_Duration (Some v)" "\<not> is_error (Some v)"
    by (simp_all add: domain_typed_def)
  with valid iface t sw show ?thesis
    by (simp add: ParseType_resolved [OF assms(1)] unsupported_def)
qed

text \<open>The theorem at a function value of type \<^verbatim>\<open>func()\<close>.\<close>

theorem ParseType_unsupported_witness:
  "ParseType (NewValueParser (Some func_value)) =
     Inr ((objconv_Nil,
           Some (errors_New ''objconv: unsupported type found in value parser: func()'')),
          NewValueParser (Some func_value))"
proof -
  have v: "p_value (NewValueParser (Some func_value)) = Inr func_value"
    by (simp add: p_value_New reflect_ValueOf_def func_value_def Value_IsValid_def
        type_switch_defs dereference_stop nonnil_wrapper_def)
  have k: "Value_Kind func_value = reflect_Func"
    by (simp add: func_value_def)
  have d: "\<not> domain_typed func_value"
    by (simp add: domain_typed_def func_value_def type_switch_defs)
  from ParseType_unsupported [OF v _ d] k show ?thesis
    by (simp add: func_value_def Value_Type_def)
qed

text \<open>
  Claim C4 fails on fixed-length sequences of bytes: the case \<^verbatim>\<open>reflect.Array\<close> of the
  switch returns \<^verbatim>\<open>Array\<close> without looking at the element type. A \<^verbatim>\<open>[2]uint8\<close> is
  classified as Array, not Bytes.
\<close>

theorem byte_array_classified_Array:
  "Value_Kind byte_array = reflect_Array
   \<and> Value_Type_Elem_Kind byte_array = Inr reflect_Uint8
   \<and> ParseType (NewValueParser (Some byte_array)) =
       Inr ((objconv_Array, None), NewValueParser (Some byte_array))
   \<and> ParseType (NewValueParser (Some byte_array)) \<noteq>
       Inr ((objconv_Bytes, None), NewValueParser (Some byte_array))"
  by (simp add: ParseType_def p_value_New reflect_ValueOf_def byte_array_def
      Value_IsValid_def type_switch_defs dereference_stop nonnil_wrapper_def
      Kind_switch_def)

text \<open>
  Claim C4, amended. For a resolved value that is not of a domain type: a slice whose
  element kind is Uint8 is classified as Bytes; a slice of any other element kind is
  classified as Array; an array is classified as Array whatever its element kind and
  length.
\<close>

theorem ParseType_sequence:
  assumes "p_value p = Inr v" and "\<not> domain_typed v"
  shows "(Value_Kind v = reflect_Slice \<and> Value_Type_Elem_Kind v = Inr reflect_Uint8
            \<longrightarrow> ParseType p = Inr ((objconv_Bytes, None), p))
       \<and> (Value_Kind v = reflect_Slice \<and> Value_Type_Elem_Kind v \<noteq> Inr reflect_Uint8
            \<longrightarrow> ParseType p = Inr ((objconv_Array, None), p))
       \<and> (Value_Kind v = reflect_Array \<longrightarrow> ParseType p = Inr ((objconv_Array, None), p))"
  using assms(2)
  by (cases v)
     (auto simp: ParseType_resolved [OF assms(1)] domain_typed_def Value_IsValid_def Kind_switch_def
           split: size_splits)

text \<open>The theorem at a slice of bytes, a slice of integers and an array of bytes.\<close>

theorem ParseType_sequence_witness:
  "ParseType (NewValueParser (Some byte_slice)) =
     Inr ((objconv_Bytes, None), NewValueParser (Some byte_slice))
   \<and> ParseType (NewValueParser (Some ints123)) =
     Inr ((objconv_Array, None), NewValueParser (Some ints123))
   \<and> ParseType (NewValueParser (Some byte_array)) =
     Inr ((objconv_Array, None), NewValueParser (Some byte_array))"
proof -
  have v1: "p_value (NewValueParser (Some byte_slice)) = Inr byte_slice"
    and v2: "p_value (NewValueParser (Some ints123)) = Inr ints123"
    and v3: "p_value (NewValueParser (Some byte_array)) = Inr byte_array"
    by (simp_all add: p_value_New reflect_ValueOf_def byte_slice_def ints123_def byte_array_def
        Value_IsValid_def type_switch_defs dereference_stop nonnil_wrapper_def)
  have d: "\<not> domain_typed byte_slice" "\<not> domain_typed ints123" "\<not> domain_typed byte_array"
    by (simp_all add: domain_typed_def byte_slice_def ints123_def byte_array_def type_switch_defs)
  from ParseType_sequence [OF v1 d(1)] ParseType_sequence [OF v2 d(2)]
    ParseType_sequence [OF v3 d(3)]
  show ?thesis
    by (simp add: byte_slice_def ints123_def byte_array_def)
qed

text \<open>
  Claim C8. \<^verbatim>\<open>ParseType\<close> reads the parser state and writes nothing, so any number of
  calls in a row return what the first call returns.
\<close>

theorem ParseType_idempotent: "ParseType_again n p = ParseType p"
proof (induction n)
  case 0
  show ?case by simp
next
  case (Suc n)
  show ?case
  proof (cases "ParseType p")
    case (Inl e)
    then show ?thesis by simp
  next
    case (Inr rp)
    obtain r p' where rp: "rp = (r, p')" by (cases rp)
    with Inr have "p' = p" by (simp add: ParseType_state)
    with Inr rp Suc show ?thesis by simp
  qed
qed

section \<open>The scalar getters\<close>

lemma getters_nil_error:
  "nil_error (ParseBool p)" "nil_error (ParseInt p)" "nil_error (ParseUint p)"
  "nil_error (ParseFloat p)" "nil_error (ParseString p)" "nil_error (ParseBytes p)"
  "nil_error (ParseTime p)" "nil_error (ParseDuration p)" "nil_error (ParseError p)"
  by (simp_all add: nil_error_def ParseBool_def ParseInt_def ParseUint_def ParseFloat_def
      ParseString_def ParseBytes_def ParseTime_def ParseDuration_def ParseError_def
      Parse_asserted_def split: sum.splits)

lemma Value_Bool_panic: "Value_Kind x \<noteq> reflect_Bool \<Longrightarrow> Value_Bool x = Inl reflect_panic"
  by (cases x) simp_all

lemma Value_Int_panic: "\<not> Int_kind (Value_Kind x) \<Longrightarrow> Value_Int x = Inl reflect_panic"
  by (cases x) (simp_all add: Int_kind_def split: size_splits)

lemma Value_Uint_panic: "\<not> Uint_kind (Value_Kind x) \<Longrightarrow> Value_Uint x = Inl reflect_panic"
  by (cases x) (simp_all add: Uint_kind_def split: size_splits)

lemma Value_Float_panic: "\<not> Float_kind (Value_Kind x) \<Longrightarrow> Value_Float x = Inl reflect_panic"
  by (cases x) (simp_all add: Float_kind_def split: size_splits)

lemma Value_Bytes_panic: "\<not> byte_sequence x \<Longrightarrow> Value_Bytes x = Inl reflect_panic"
  by (cases x) simp_all

lemma Value_Bytes_returns: "byte_sequence x \<Longrightarrow> Value_Bytes x = Inr (map byte_of (elements x))"
  by (cases x) simp_all

lemma type_assert_panic: "\<not> is_T i \<Longrightarrow> type_assert is_T i = Inl interface_conversion"
  by (cases i) (auto simp: type_assert_def)

text \<open>
  Claim C10 fails for \<^verbatim>\<open>ParseString\<close> and \<^verbatim>\<open>ParseNil\<close>: on an \<^verbatim>\<open>int\<close>, which
  \<^verbatim>\<open>ParseType\<close> classifies as Int, \<^verbatim>\<open>ParseString\<close> returns the placeholder
  \<^verbatim>\<open>"<int Value>"\<close> of \<^verbatim>\<open>reflect.Value.String\<close> and \<^verbatim>\<open>ParseNil\<close> returns; neither
  panics.
\<close>

theorem ParseString_ParseNil_on_int:
  "ParseType (NewValueParser (Some int5)) = Inr ((objconv_Int, None), NewValueParser (Some int5))
   \<and> ParseString (NewValueParser (Some int5)) =
       Inr ((''<int Value>'', None), NewValueParser (Some int5))
   \<and> ParseNil (NewValueParser (Some int5)) = Inr (None, NewValueParser (Some int5))"
  by (simp add: ParseType_resolved [OF p_value_int5] ParseString_def ParseNil_def p_value_int5)
     (simp add: int5_def int_type_def Value_IsValid_def type_switch_defs Kind_switch_def)

text \<open>
  \<^verbatim>\<open>ParseBytes\<close> on a pointer to a \<^verbatim>\<open>[2]uint8\<close>: \<^verbatim>\<open>value()\<close> yields the array the
  pointer refers to, which is addressable, \<^verbatim>\<open>ParseType\<close> classifies it as Array and
  \<^verbatim>\<open>ParseBytes\<close> returns its bytes. On the array itself as the root value, which is
  not addressable, \<^verbatim>\<open>ParseBytes\<close> panics.
\<close>

lemma p_value_byte_array_ptr:
  "p_value (NewValueParser (Some byte_array_ptr)) = Inr (set_CanAddr True byte_array)"
  by (simp add: p_value_New reflect_ValueOf_def byte_array_ptr_def byte_array_def
      Value_IsValid_def type_switch_defs dereference_step dereference_stop nonnil_wrapper_def
      held_def)

lemma p_value_byte_array: "p_value (NewValueParser (Some byte_array)) = Inr byte_array"
  by (simp add: p_value_New reflect_ValueOf_def byte_array_def
      Value_IsValid_def type_switch_defs dereference_stop nonnil_wrapper_def)

lemma ParseBytes_on_array_pointer:
  "ParseType (NewValueParser (Some byte_array_ptr)) =
     Inr ((objconv_Array, None), NewValueParser (Some byte_array_ptr))"
  "ParseBytes (NewValueParser (Some byte_array_ptr)) =
     Inr ((''hi'', None), NewValueParser (Some byte_array_ptr))"
  "ParseBytes (NewValueParser (Some byte_array)) = Inl reflect_panic"
  by (simp_all add: ParseType_resolved [OF p_value_byte_array_ptr] ParseBytes_def
      p_value_byte_array_ptr p_value_byte_array)
     (simp_all add: byte_array_def Value_IsValid_def type_switch_defs Kind_switch_def
      uint8_type_def char_of_def bit_iff_odd)

text \<open>
  Claim C10, amended. Every scalar getter returns the nil error on every call on which
  it returns. \<^verbatim>\<open>ParseNil\<close> returns on every call and \<^verbatim>\<open>ParseString\<close> on every call
  on which the current value resolves, whatever that value is. The other getters panic
  when the resolved value does not fit: \<^verbatim>\<open>ParseBool\<close>, \<^verbatim>\<open>ParseInt\<close>, \<^verbatim>\<open>ParseUint\<close> and
  \<^verbatim>\<open>ParseFloat\<close> on a value of a kind outside their family, \<^verbatim>\<open>ParseBytes\<close> on anything
  but a slice of bytes or an addressable array of bytes (on these two it returns the
  bytes), \<^verbatim>\<open>ParseTime\<close>, \<^verbatim>\<open>ParseDuration\<close> and \<^verbatim>\<open>ParseError\<close> on a value whose dynamic
  type is not the asserted one.
\<close>

theorem getters_never_report:
  "ParseNil p = Inr (None, p)
   \<and> nil_error (ParseBool p) \<and> nil_error (ParseInt p) \<and> nil_error (ParseUint p)
   \<and> nil_error (ParseFloat p) \<and> nil_error (ParseString p) \<and> nil_error (ParseBytes p)
   \<and> nil_error (ParseTime p) \<and> nil_error (ParseDuration p) \<and> nil_error (ParseError p)
   \<and> (\<forall>x. p_value p = Inr x \<longrightarrow>
         ParseString p = Inr ((Value_String x, None), p)
       \<and> (Value_Kind x \<noteq> reflect_Bool \<longrightarrow> ParseBool p = Inl reflect_panic)
       \<and> (\<not> Int_kind (Value_Kind x) \<longrightarrow> ParseInt p = Inl reflect_panic)
       \<and> (\<not> Uint_kind (Value_Kind x) \<longrightarrow> ParseUint p = Inl reflect_panic)
       \<and> (\<not> Float_kind (Value_Kind x) \<longrightarrow> ParseFloat p = Inl reflect_panic)
       \<and> (\<not> byte_sequence x \<longrightarrow> ParseBytes p = Inl reflect_panic)
       \<and> (byte_sequence x \<longrightarrow>
            ParseBytes p = Inr ((map byte_of (elements x), None), p))
       \<and> (\<forall>i. Value_Interface x = Inr i \<longrightarrow>
              (\<not> is_time_Time i \<longrightarrow> ParseTime p = Inl interface_conversion)
            \<and> (\<not> is_time_Duration i \<longrightarrow> ParseDuration p = Inl interface_conversion)
            \<and> (\<not> is_error i \<longrightarrow> ParseError p = Inl interface_conversion)))"
proof -
  have "ParseNil p = Inr (None, p)"
    by (simp add: ParseNil_def)
  moreover have "ParseString p = Inr ((Value_String x, None), p)" if "p_value p = Inr x" for x
    using that by (simp add: ParseString_def)
  moreover have "ParseBool p = Inl reflect_panic"
    if "p_value p = Inr x" "Value_Kind x \<noteq> reflect_Bool" for x
    using that by (simp add: ParseBool_def Value_Bool_panic)
  moreover have "ParseInt p = Inl reflect_panic"
    if "p_value p = Inr x" "\<not> Int_kind (Value_Kind x)" for x
    using that by (simp add: ParseInt_def Value_Int_panic)
  moreover have "ParseUint p = Inl reflect_panic"
    if "p_value p = Inr x" "\<not> Uint_kind (Value_Kind x)" for x
    using that by (simp add: ParseUint_def Value_Uint_panic)
  moreover have "ParseFloat p = Inl reflect_panic"
    if "p_value p = Inr x" "\<not> Float_kind (Value_Kind x)" for x
    using that by (simp add: ParseFloat_def Value_Float_panic)
  moreover have "ParseBytes p = Inl reflect_panic"
    if "p_value p = Inr x" "\<not> byte_sequence x" for x
    using that by (simp add: ParseBytes_def Value_Bytes_panic)
  moreover have "ParseBytes p = Inr ((map byte_of (elements x), None), p)"
    if "p_value p = Inr x" "byte_sequence x" for x
    using that by (simp add: ParseBytes_def Value_Bytes_returns)
  moreover have "Parse_asserted is_T p = Inl interface_conversion"
    if "p_value p = Inr x" "Value_Interface x = Inr i" "\<not> is_T i" for x i is_T
    using that by (simp add: Parse_asserted_def type_assert_panic)
  ultimately show ?thesis
    using getters_nil_error [of p]
    by (simp add: ParseTime_def ParseDuration_def ParseError_def)
qed

text \<open>
  The theorem at the integer 5, where only \<^verbatim>\<open>ParseNil\<close>, \<^verbatim>\<open>ParseString\<close> and \<^verbatim>\<open>ParseInt\<close>
  return, at a slice of bytes and at a pointer to an array of bytes, where \<^verbatim>\<open>ParseBytes\<close>
  returns, and at an array of bytes as the root value, where it panics.
\<close>

theorem getters_never_report_witness:
  "ParseNil (NewValueParser (Some int5)) = Inr (None, NewValueParser (Some int5))
   \<and> ParseString (NewValueParser (Some int5)) =
       Inr ((''<int Value>'', None), NewValueParser (Some int5))
   \<and> ParseBool (NewValueParser (Some int5)) = Inl reflect_panic
   \<and> ParseUint (NewValueParser (Some int5)) = Inl reflect_panic
   \<and> ParseFloat (NewValueParser (Some int5)) = Inl reflect_panic
   \<and> ParseBytes (NewValueParser (Some int5)) = Inl reflect_panic
   \<and> ParseTime (NewValueParser (Some int5)) = Inl interface_conversion
   \<and> ParseDuration (NewValueParser (Some int5)) = Inl interface_conversion
   \<and> ParseError (NewValueParser (Some int5)) = Inl interface_conversion
   \<and> nil_error (ParseInt (NewValueParser (Some int5)))
   \<and> ParseBytes (NewValueParser (Some byte_slice)) =
       Inr ((''hi'', None), NewValueParser (Some byte_slice))
   \<and> ParseBytes (NewValueParser (Some byte_array_ptr)) =
       Inr ((''hi'', None), NewValueParser (Some byte_array_ptr))
   \<and> ParseBytes (NewValueParser (Some byte_array)) = Inl reflect_panic"
proof -
  have v: "p_value (NewValueParser (Some byte_slice)) = Inr byte_slice"
    by (simp add: p_value_New reflect_ValueOf_def byte_slice_def
        Value_IsValid_def type_switch_defs dereference_stop nonnil_wrapper_def)
  from getters_never_report [of "NewValueParser (Some int5)"] p_value_int5
  have "ParseNil (NewValueParser (Some int5)) = Inr (None, NewValueParser (Some int5))
   \<and> ParseString (NewValueParser (Some int5)) =
       Inr ((''<int Value>'', None), NewValueParser (Some int5))
   \<and> ParseBool (NewValueParser (Some int5)) = Inl reflect_panic
   \<and> ParseUint (NewValueParser (Some int5)) = Inl reflect_panic
   \<and> ParseFloat (NewValueParser (Some int5)) = Inl reflect_panic
   \<and> ParseBytes (NewValueParser (Some int5)) = Inl reflect_panic
   \<and> ParseTime (NewValueParser (Some int5)) = Inl interface_conversion
   \<and> ParseDuration (NewValueParser (Some int5)) = Inl interface_conversion
   \<and> ParseError (NewValueParser (Some int5)) = Inl interface_conversion
   \<and> nil_error (ParseInt (NewValueParser (Some int5)))"
    by (simp add: int5_def int_type_def Uint_kind_def Float_kind_def type_switch_defs)
  moreover from getters_never_report [of "NewValueParser (Some byte_slice)"] v
  have "ParseBytes (NewValueParser (Some byte_slice)) =
       Inr ((''hi'', None), NewValueParser (Some byte_slice))"
    by (simp add: byte_slice_def char_of_def bit_iff_odd)
  moreover from getters_never_report [of "NewValueParser (Some byte_array_ptr)"]
    p_value_byte_array_ptr
  have "ParseBytes (NewValueParser (Some byte_array_ptr)) =
       Inr ((''hi'', None), NewValueParser (Some byte_array_ptr))"
    by (simp add: byte_array_def char_of_def bit_iff_odd)
  moreover from getters_never_report [of "NewValueParser (Some byte_array)"] p_value_byte_array
  have "ParseBytes (NewValueParser (Some byte_array)) = Inl reflect_panic"
    by (simp add: byte_array_def)
  ultimately show ?thesis
    by blast
qed

lemmas stack_defs = push_def pop_def pushContext_def popContext_def p_context_def set_context_def
  at_index_def

section \<open>Arrays\<close>

lemma ParseArrayBegin_nonempty:
  assumes "p_value p = Inr v" and "Value_Len v = Inr n" and "n \<noteq> 0"
    and "Value_Index v 0 = Inr x"
  shows "ParseArrayBegin p =
     Inr ((n, None),
          \<lparr>stack = stack p @ [x],
           ctx = ctx p @ [\<lparr>c_index = 0, c_length = n, c_value = v, c_keys = None,
                           c_fields = []\<rparr>]\<rparr>)"
  using assms by (simp add: ParseArrayBegin_def stack_defs)

lemma ParseArrayBegin_slice:
  assumes "p_value p = Inr (VSlice t k xs)" and "xs \<noteq> []"
  shows "ParseArrayBegin p =
     Inr ((length xs, None),
          \<lparr>stack = stack p @ [set_CanAddr True (xs ! 0)],
           ctx = ctx p @ [\<lparr>c_index = 0, c_length = length xs, c_value = VSlice t k xs,
                           c_keys = None, c_fields = []\<rparr>]\<rparr>)"
  using assms by (intro ParseArrayBegin_nonempty) simp_all

lemma ParseArrayBegin_array:
  assumes "p_value p = Inr (VArray t k a xs)" and "xs \<noteq> []"
  shows "ParseArrayBegin p =
     Inr ((length xs, None),
          \<lparr>stack = stack p @ [set_CanAddr a (xs ! 0)],
           ctx = ctx p @ [\<lparr>c_index = 0, c_length = length xs, c_value = VArray t k a xs,
                           c_keys = None, c_fields = []\<rparr>]\<rparr>)"
  using assms by (intro ParseArrayBegin_nonempty) simp_all

text \<open>
  On a nil pointer to an array, at which \<^verbatim>\<open>value()\<close> stops, \<^verbatim>\<open>Len()\<close> is the length of
  the array type: \<^verbatim>\<open>ParseArrayBegin\<close> returns 0 and pushes a context for a \<^verbatim>\<open>*[0]int\<close>, and
  panics in \<^verbatim>\<open>Index(0)\<close> for a \<^verbatim>\<open>*[3]int\<close>.
\<close>

lemma ParseArrayBegin_nil_array_pointer:
  "ParseArrayBegin (NewValueParser (Some nil_array0_ptr)) =
     Inr ((0, None),
          \<lparr>stack = [nil_array0_ptr],
           ctx = [\<lparr>c_index = 0, c_length = 0, c_value = nil_array0_ptr, c_keys = None,
                   c_fields = []\<rparr>]\<rparr>)"
  "ParseArrayBegin (NewValueParser (Some nil_array3_ptr)) = Inl reflect_panic"
proof -
  have "p_value (NewValueParser (Some nil_array0_ptr)) = Inr nil_array0_ptr"
    and "p_value (NewValueParser (Some nil_array3_ptr)) = Inr nil_array3_ptr"
    by (simp_all add: p_value_New reflect_ValueOf_def nil_array0_ptr_def nil_array3_ptr_def
        Value_IsValid_def type_switch_defs dereference_stop nonnil_wrapper_def)
  then show
    "ParseArrayBegin (NewValueParser (Some nil_array0_ptr)) =
       Inr ((0, None),
            \<lparr>stack = [nil_array0_ptr],
             ctx = [\<lparr>c_index = 0, c_length = 0, c_value = nil_array0_ptr, c_keys = None,
                     c_fields = []\<rparr>]\<rparr>)"
    "ParseArrayBegin (NewValueParser (Some nil_array3_ptr)) = Inl reflect_panic"
    by (simp_all add: ParseArrayBegin_def)
      (simp_all add: nil_array0_ptr_def nil_array3_ptr_def stack_defs NewValueParser_def
        reflect_ValueOf_def)
qed

lemma ParseArrayNext_effect:
  assumes "ctx p \<noteq> []" and "stack p \<noteq> []"
    and "Value_Index (c_value (last (ctx p))) (c_index (last (ctx p)) + 1) = Inr x"
  shows "ParseArrayNext p =
     Inr (None,
          \<lparr>stack = butlast (stack p) @ [x],
           ctx = butlast (ctx p) @ [(last (ctx p))\<lparr>c_index := c_index (last (ctx p)) + 1\<rparr>]\<rparr>)"
  using assms by (simp add: ParseArrayNext_def stack_defs Let_def)

lemma p_value_ints123_at: "p_value (ints123_at i) = Inr (VInt int_type I (of_nat (i + 1)))"
  by (simp add: ints123_at_def p_value_def Value_IsValid_def is_error_def int_type_def
      dereference_stop nonnil_wrapper_def)

lemma p_value_ints123: "p_value (NewValueParser (Some ints123)) = Inr ints123"
  by (simp add: p_value_New reflect_ValueOf_def ints123_def Value_IsValid_def
        type_switch_defs dereference_stop nonnil_wrapper_def)

lemma replay_123:
  "ParseArrayBegin (NewValueParser (Some ints123)) = Inr ((3, None), ints123_at 0)"
  "ParseInt (ints123_at 0) = Inr ((1, None), ints123_at 0)"
  "ParseArrayNext (ints123_at 0) = Inr (None, ints123_at 1)"
  "ParseInt (ints123_at 1) = Inr ((2, None), ints123_at 1)"
  "ParseArrayNext (ints123_at 1) = Inr (None, ints123_at 2)"
  "ParseInt (ints123_at 2) = Inr ((3, None), ints123_at 2)"
  "ParseArrayEnd (ints123_at 2) = Inr (None, NewValueParser (Some ints123))"
proof -
  show "ParseArrayBegin (NewValueParser (Some ints123)) = Inr ((3, None), ints123_at 0)"
    by (simp add: ParseArrayBegin_def p_value_ints123)
       (simp add: ints123_def ints123_at_def NewValueParser_def reflect_ValueOf_def stack_defs)
  show "ParseInt (ints123_at 0) = Inr ((1, None), ints123_at 0)"
    "ParseInt (ints123_at 1) = Inr ((2, None), ints123_at 1)"
    "ParseInt (ints123_at 2) = Inr ((3, None), ints123_at 2)"
    by (simp_all add: ParseInt_def p_value_ints123_at)
  show "ParseArrayNext (ints123_at 0) = Inr (None, ints123_at 1)"
    "ParseArrayNext (ints123_at 1) = Inr (None, ints123_at 2)"
    by (simp_all add: ParseArrayNext_def ints123_at_def stack_defs Let_def ints123_def
        numeral_2_eq_2)
  show "ParseArrayEnd (ints123_at 2) = Inr (None, NewValueParser (Some ints123))"
    by (simp add: ParseArrayEnd_def ints123_at_def stack_defs NewValueParser_def reflect_ValueOf_def)
qed

text \<open>
  Claim C5. On the parser made for the slice \<^verbatim>\<open>[1,2,3]\<close>, \<^verbatim>\<open>ParseArrayBegin\<close> returns
  3 and makes the element 1 current; \<^verbatim>\<open>ParseInt\<close> returns 1, after a
  \<^verbatim>\<open>ParseArrayNext\<close> 2, after another 3; \<^verbatim>\<open>ParseArrayEnd\<close> then succeeds and leaves
  the parser as it was made. In general \<^verbatim>\<open>ParseArrayBegin\<close> on a non-empty slice or
  array pushes a context and the element of index 0 (as \<^verbatim>\<open>Index\<close> yields it:
  addressable for a slice, as the array is for an array), and \<^verbatim>\<open>ParseArrayNext\<close>
  increments the index of the last context, removes the top of the value stack and
  pushes the element at the new index.
\<close>

theorem array_replay:
  "ParseArrayBegin (NewValueParser (Some ints123)) = Inr ((3, None), ints123_at 0)
   \<and> ParseInt (ints123_at 0) = Inr ((1, None), ints123_at 0)
   \<and> ParseArrayNext (ints123_at 0) = Inr (None, ints123_at 1)
   \<and> ParseInt (ints123_at 1) = Inr ((2, None), ints123_at 1)
   \<and> ParseArrayNext (ints123_at 1) = Inr (None, ints123_at 2)
   \<and> ParseInt (ints123_at 2) = Inr ((3, None), ints123_at 2)
   \<and> ParseArrayEnd (ints123_at 2) = Inr (None, NewValueParser (Some ints123))
   \<and> (\<forall>p t k xs. p_value p = Inr (VSlice t k xs) \<and> xs \<noteq> []
        \<longrightarrow> ParseArrayBegin p =
             Inr ((length xs, None),
                  \<lparr>stack = stack p @ [set_CanAddr True (xs ! 0)],
                   ctx = ctx p @ [\<lparr>c_index = 0, c_length = length xs,
                                   c_value = VSlice t k xs, c_keys = None, c_fields = []\<rparr>]\<rparr>))
   \<and> (\<forall>p t k a xs. p_value p = Inr (VArray t k a xs) \<and> xs \<noteq> []
        \<longrightarrow> ParseArrayBegin p =
             Inr ((length xs, None),
                  \<lparr>stack = stack p @ [set_CanAddr a (xs ! 0)],
                   ctx = ctx p @ [\<lparr>c_index = 0, c_length = length xs,
                                   c_value = VArray t k a xs, c_keys = None,
                                   c_fields = []\<rparr>]\<rparr>))
   \<and> (\<forall>p x. ctx p \<noteq> [] \<and> stack p \<noteq> []
          \<and> Value_Index (c_value (last (ctx p))) (c_index (last (ctx p)) + 1) = Inr x
        \<longrightarrow> ParseArrayNext p =
             Inr (None,
                  \<lparr>stack = butlast (stack p) @ [x],
                   ctx = butlast (ctx p)
                         @ [(last (ctx p))\<lparr>c_index := c_index (last (ctx p)) + 1\<rparr>]\<rparr>))"
  using replay_123 ParseArrayBegin_slice ParseArrayBegin_array ParseArrayNext_effect
  by (intro conjI allI impI) blast+

text \<open>
  The general parts at a slice of two bytes, at an array of two bytes and at the first
  element of \<^verbatim>\<open>[1,2,3]\<close>.
\<close>

theorem array_replay_witness:
  "ParseArrayBegin (NewValueParser (Some byte_slice)) =
     Inr ((2, None),
          \<lparr>stack = [byte_slice, VUint uint8_type U8 104],
           ctx = [\<lparr>c_index = 0, c_length = 2, c_value = byte_slice, c_keys = None,
                   c_fields = []\<rparr>]\<rparr>)
   \<and> ParseArrayBegin (NewValueParser (Some byte_array)) =
     Inr ((2, None),
          \<lparr>stack = [byte_array, VUint uint8_type U8 104],
           ctx = [\<lparr>c_index = 0, c_length = 2, c_value = byte_array, c_keys = None,
                   c_fields = []\<rparr>]\<rparr>)
   \<and> ParseArrayNext (ints123_at 0) = Inr (None, ints123_at 1)"
proof -
  have v: "p_value (NewValueParser (Some byte_array)) =
      Inr (VArray (rtype ''[2]uint8'' False) reflect_Uint8 False
             [VUint uint8_type U8 104, VUint uint8_type U8 105])"
    and w: "p_value (NewValueParser (Some byte_slice)) =
      Inr (VSlice (rtype ''[]uint8'' False) reflect_Uint8
             [VUint uint8_type U8 104, VUint uint8_type U8 105])"
    by (simp_all add: p_value_New reflect_ValueOf_def byte_array_def byte_slice_def
        Value_IsValid_def type_switch_defs dereference_stop nonnil_wrapper_def)
  have n: "ctx (ints123_at 0) \<noteq> [] \<and> stack (ints123_at 0) \<noteq> []
      \<and> Value_Index (c_value (last (ctx (ints123_at 0)))) (c_index (last (ctx (ints123_at 0))) + 1)
          = Inr (VInt int_type I 2)"
    by (simp add: ints123_at_def ints123_def)
  from array_replay have
    "ParseArrayBegin (NewValueParser (Some byte_slice)) =
       Inr ((length [VUint uint8_type U8 104, VUint uint8_type U8 105], None),
            \<lparr>stack = stack (NewValueParser (Some byte_slice))
                      @ [set_CanAddr True ([VUint uint8_type U8 104, VUint uint8_type U8 105] ! 0)],
             ctx = ctx (NewValueParser (Some byte_slice))
                   @ [\<lparr>c_index = 0,
                       c_length = length [VUint uint8_type U8 104, VUint uint8_type U8 105],
                       c_value = VSlice (rtype ''[]uint8'' False) reflect_Uint8
                                   [VUint uint8_type U8 104, VUint uint8_type U8 105],
                       c_keys = None, c_fields = []\<rparr>]\<rparr>)"
    using w by blast
  moreover from array_replay have
    "ParseArrayBegin (NewValueParser (Some byte_array)) =
       Inr ((length [VUint uint8_type U8 104, VUint uint8_type U8 105], None),
            \<lparr>stack = stack (NewValueParser (Some byte_array))
                      @ [set_CanAddr False ([VUint uint8_type U8 104, VUint uint8_type U8 105] ! 0)],
             ctx = ctx (NewValueParser (Some byte_array))
                   @ [\<lparr>c_index = 0,
                       c_length = length [VUint uint8_type U8 104, VUint uint8_type U8 105],
                       c_value = VArray (rtype ''[2]uint8'' False) reflect_Uint8 False
                                   [VUint uint8_type U8 104, VUint uint8_type U8 105],
                       c_keys = None, c_fields = []\<rparr>]\<rparr>)"
    using v by blast
  moreover from array_replay n have
    "ParseArrayNext (ints123_at 0) =
       Inr (None,
            \<lparr>stack = butlast (stack (ints123_at 0)) @ [VInt int_type I 2],
             ctx = butlast (ctx (ints123_at 0))
                   @ [(last (ctx (ints123_at 0)))
                        \<lparr>c_index := c_index (last (ctx (ints123_at 0))) + 1\<rparr>]\<rparr>)"
    by blast
  ultimately show ?thesis
    by (simp add: NewValueParser_def reflect_ValueOf_def ints123_at_def byte_array_def
        byte_slice_def)
qed

section \<open>Map values\<close>

text \<open>
  Claim C3 fails: \<^verbatim>\<open>ParseMapValue\<close> calls \<^verbatim>\<open>p.pop()\<close> before it pushes. After
  \<^verbatim>\<open>ParseMapBegin\<close> on the map \<^verbatim>\<open>{"k": 1}\<close> the stack holds the map and the key;
  after \<^verbatim>\<open>ParseMapValue\<close> it holds the map and the value: the key has been replaced,
  not kept below the value.
\<close>

theorem ParseMapValue_replaces_key:
  "ParseMapBegin no_fields omit_never (NewValueParser (Some map_k1)) = Inr ((1, None), map_k1_begun)
   \<and> stack map_k1_begun = [map_k1, string_key]
   \<and> ParseMapValue map_k1_begun = Inr (None, map_k1_begun\<lparr>stack := [map_k1, VInt int_type I 1]\<rparr>)
   \<and> [map_k1, VInt int_type I 1] \<noteq> stack map_k1_begun @ [VInt int_type I 1]"
proof -
  have v: "p_value (NewValueParser (Some map_k1)) = Inr map_k1"
    by (simp add: p_value_New reflect_ValueOf_def map_k1_def Value_IsValid_def
        type_switch_defs dereference_stop nonnil_wrapper_def)
  have "ParseMapBegin no_fields omit_never (NewValueParser (Some map_k1)) = Inr ((1, None), map_k1_begun)"
    by (simp add: ParseMapBegin_def v)
      (simp add: map_k1_def map_k1_begun_def pushContext_def push_def NewValueParser_def
        reflect_ValueOf_def at_index_def)
  moreover have "ParseMapValue map_k1_begun = Inr (None, map_k1_begun\<lparr>stack := [map_k1, VInt int_type I 1]\<rparr>)"
    by (simp add: ParseMapValue_def map_k1_begun_def p_context_def pop_def at_index_def push_def
        map_k1_def)
  ultimately show ?thesis
    by (simp add: map_k1_begun_def)
qed

text \<open>
  Claim C3, amended. On a parser with a context and a non-empty value stack,
  \<^verbatim>\<open>ParseMapValue\<close> removes the top entry of the value stack (the key) and pushes in
  its place the value of the current key (\<^verbatim>\<open>MapIndex\<close>, when the context has a key
  list) or of the current field (\<^verbatim>\<open>FieldByIndex\<close>, when it has none); the entries
  below the top and the context stack are as before, so the key stays tracked by the
  context only.
\<close>

theorem ParseMapValue_effect:
  assumes "ctx p \<noteq> []" and "stack p \<noteq> []"
  shows "(\<forall>keys k x. c_keys (last (ctx p)) = Some keys
            \<and> at_index keys (c_index (last (ctx p))) = Inr k
            \<and> Value_MapIndex (c_value (last (ctx p))) k = Inr x
          \<longrightarrow> ParseMapValue p = Inr (None, p\<lparr>stack := butlast (stack p) @ [x]\<rparr>))
       \<and> (\<forall>f x. c_keys (last (ctx p)) = None
            \<and> at_index (c_fields (last (ctx p))) (c_index (last (ctx p))) = Inr f
            \<and> Value_FieldByIndex (c_value (last (ctx p))) (Index f) = Inr x
          \<longrightarrow> ParseMapValue p = Inr (None, p\<lparr>stack := butlast (stack p) @ [x]\<rparr>))"
  using assms by (simp add: ParseMapValue_def p_context_def pop_def push_def)

text \<open>The theorem at a map entry and at a struct field.\<close>

theorem ParseMapValue_effect_witness:
  "ctx map_k1_begun \<noteq> [] \<and> stack map_k1_begun \<noteq> []
   \<and> ParseMapValue map_k1_begun = Inr (None, map_k1_begun\<lparr>stack := [map_k1, VInt int_type I 1]\<rparr>)
   \<and> ctx record_AB_begun \<noteq> [] \<and> stack record_AB_begun \<noteq> []
   \<and> ParseMapValue record_AB_begun = Inr (None, record_AB_at_value)"
proof -
  have 1: "ctx map_k1_begun \<noteq> []" "stack map_k1_begun \<noteq> []"
    and 2: "ctx record_AB_begun \<noteq> []" "stack record_AB_begun \<noteq> []"
    by (simp_all add: map_k1_begun_def record_AB_begun_def)
  have k: "c_keys (last (ctx map_k1_begun)) = Some [string_key]
     \<and> at_index [string_key] (c_index (last (ctx map_k1_begun))) = Inr string_key
     \<and> Value_MapIndex (c_value (last (ctx map_k1_begun))) string_key = Inr (VInt int_type I 1)"
    by (simp add: map_k1_begun_def at_index_def map_k1_def)
  have f: "c_keys (last (ctx record_AB_begun)) = None
     \<and> at_index (c_fields (last (ctx record_AB_begun))) (c_index (last (ctx record_AB_begun))) = Inr field_B
     \<and> Value_FieldByIndex (c_value (last (ctx record_AB_begun))) (Index field_B) = Inr (VString string_type ''x'')"
    by (simp add: record_AB_begun_def struct_context_def at_index_def record_AB_def field_B_def)
  from ParseMapValue_effect [OF 1] k ParseMapValue_effect [OF 2] f 1 2
  show ?thesis
    by (simp add: map_k1_begun_def record_AB_begun_def record_AB_at_value_def)
qed


section \<open>Struct fields\<close>

lemma range_Fields_surviving:
  "list_all (accessible v) fs \<Longrightarrow>
   range_Fields omit v fs (kept, n) =
     Inr (kept @ surviving omit v fs, n + length (surviving omit v fs))"
proof (induction fs arbitrary: kept n)
  case Nil
  show ?case by (simp add: surviving_def)
next
  case (Cons f fs)
  from Cons.prems obtain x where x: "Value_FieldByIndex v (Index f) = Inr x"
    by (auto simp: accessible_def split: sum.splits)
  from Cons.prems have rest: "list_all (accessible v) fs"
    by simp
  show ?case
    using x Cons.IH [OF rest]
    by (simp add: surviving_def field_omitted_def)
qed

lemma ParseMapBegin_struct_general:
  assumes "p_value p = Inr v" and "Value_Kind v = reflect_Struct" and "Value_Type v = Inr t"
    and "list_all (accessible v) (LookupStruct t)"
  shows "ParseMapBegin LookupStruct omit p =
     Inr ((length (surviving omit v (LookupStruct t)), None),
          (if surviving omit v (LookupStruct t) = []
           then pushContext p (struct_context v [])
           else push (pushContext p (struct_context v (surviving omit v (LookupStruct t))))
                  (VString string_type (Name (hd (surviving omit v (LookupStruct t)))))))"
  using assms
  by (simp add: ParseMapBegin_def range_Fields_surviving struct_context_def at_index_def
      reflect_ValueOf_def hd_conv_nth)

lemma p_value_record_AB: "p_value (NewValueParser (Some record_AB)) = Inr record_AB"
  by (simp add: p_value_New reflect_ValueOf_def record_AB_def AB_type_def Value_IsValid_def
      type_switch_defs dereference_stop nonnil_wrapper_def)

lemma surviving_AB: "surviving omit_zero record_AB (lookup_AB AB_type) = [field_B]"
  by (simp add: surviving_def lookup_AB_def field_omitted_def field_A_def field_B_def
      record_AB_def omit_zero_def)

lemma accessible_AB: "list_all (accessible record_AB) (lookup_AB AB_type)"
  by (simp add: lookup_AB_def accessible_def field_A_def field_B_def record_AB_def)

lemma record_AB_run:
  "ParseMapBegin lookup_AB omit_zero (NewValueParser (Some record_AB)) =
     Inr ((1, None), record_AB_begun)"
  "ParseString record_AB_begun = Inr ((''B'', None), record_AB_begun)"
  "ParseMapValue record_AB_begun = Inr (None, record_AB_at_value)"
  "ParseString record_AB_at_value = Inr ((''x'', None), record_AB_at_value)"
proof -
  have t: "Value_Type record_AB = Inr AB_type" and k: "Value_Kind record_AB = reflect_Struct"
    by (simp_all add: record_AB_def Value_Type_def)
  show "ParseMapBegin lookup_AB omit_zero (NewValueParser (Some record_AB)) =
     Inr ((1, None), record_AB_begun)"
    by (simp add: ParseMapBegin_struct_general
          [where LookupStruct = lookup_AB, OF p_value_record_AB k t accessible_AB]
        surviving_AB)
       (simp add: record_AB_begun_def push_def pushContext_def NewValueParser_def
        reflect_ValueOf_def field_B_def)
  have "p_value record_AB_begun = Inr (VString string_type ''B'')"
    "p_value record_AB_at_value = Inr (VString string_type ''x'')"
    by (simp_all add: record_AB_begun_def record_AB_at_value_def p_value_def Value_IsValid_def
        is_error_def string_type_def dereference_stop nonnil_wrapper_def)
  then show "ParseString record_AB_begun = Inr ((''B'', None), record_AB_begun)"
    "ParseString record_AB_at_value = Inr ((''x'', None), record_AB_at_value)"
    by (simp_all add: ParseString_def)
  show "ParseMapValue record_AB_begun = Inr (None, record_AB_at_value)"
    by (simp add: ParseMapValue_def record_AB_begun_def record_AB_at_value_def stack_defs
        struct_context_def field_B_def record_AB_def)
qed

text \<open>
  Claim C7. On a struct value all of whose listed fields are accessible,
  \<^verbatim>\<open>ParseMapBegin\<close> returns the number of fields that the omission predicate does not
  omit, pushes a context holding these fields in order and, when there is one, pushes
  the name of the first of them. For the record \<^verbatim>\<open>{A: 0, B: "x"}\<close> and the omit-zero
  predicate it returns 1; the key then read is \<^verbatim>\<open>B\<close> and, after \<^verbatim>\<open>ParseMapValue\<close>,
  the value read is \<^verbatim>\<open>x\<close>.
\<close>

theorem ParseMapBegin_struct:
  "(\<forall>p v t. p_value p = Inr v \<and> Value_Kind v = reflect_Struct \<and> Value_Type v = Inr t
        \<and> list_all (accessible v) (LookupStruct t)
      \<longrightarrow> ParseMapBegin LookupStruct omit p =
           Inr ((length (surviving omit v (LookupStruct t)), None),
                (if surviving omit v (LookupStruct t) = []
                 then pushContext p (struct_context v [])
                 else push (pushContext p (struct_context v (surviving omit v (LookupStruct t))))
                        (VString string_type (Name (hd (surviving omit v (LookupStruct t))))))))
   \<and> ParseMapBegin lookup_AB omit_zero (NewValueParser (Some record_AB)) =
       Inr ((1, None), record_AB_begun)
   \<and> ParseString record_AB_begun = Inr ((''B'', None), record_AB_begun)
   \<and> ParseMapValue record_AB_begun = Inr (None, record_AB_at_value)
   \<and> ParseString record_AB_at_value = Inr ((''x'', None), record_AB_at_value)"
  using record_AB_run ParseMapBegin_struct_general [of _ _ _ LookupStruct omit]
  by (intro conjI allI impI) blast+

text \<open>The general part at the same record when nothing is omitted: both fields survive.\<close>

theorem ParseMapBegin_struct_witness:
  "p_value (NewValueParser (Some record_AB)) = Inr record_AB
   \<and> Value_Kind record_AB = reflect_Struct
   \<and> list_all (accessible record_AB) (lookup_AB AB_type)
   \<and> surviving omit_never record_AB (lookup_AB AB_type) = [field_A, field_B]
   \<and> ParseMapBegin lookup_AB omit_never (NewValueParser (Some record_AB)) =
       Inr ((2, None),
            \<lparr>stack = [record_AB, VString string_type ''A''],
             ctx = [struct_context record_AB [field_A, field_B]]\<rparr>)"
proof -
  have t: "Value_Type record_AB = Inr AB_type" and k: "Value_Kind record_AB = reflect_Struct"
    by (simp_all add: record_AB_def Value_Type_def)
  have s: "surviving omit_never record_AB (lookup_AB AB_type) = [field_A, field_B]"
    by (simp add: surviving_def lookup_AB_def field_omitted_def omit_never_def
        split: sum.splits)
  from ParseMapBegin_struct [of lookup_AB omit_never] p_value_record_AB k t accessible_AB
  have "ParseMapBegin lookup_AB omit_never (NewValueParser (Some record_AB)) =
           Inr ((length (surviving omit_never record_AB (lookup_AB AB_type)), None),
                (if surviving omit_never record_AB (lookup_AB AB_type) = []
                 then pushContext (NewValueParser (Some record_AB)) (struct_context record_AB [])
                 else push (pushContext (NewValueParser (Some record_AB))
                        (struct_context record_AB (surviving omit_never record_AB (lookup_AB AB_type))))
                        (VString string_type (Name (hd (surviving omit_never record_AB (lookup_AB AB_type)))))))"
    by blast
  with p_value_record_AB k accessible_AB s show ?thesis
    by (simp add: push_def pushContext_def NewValueParser_def reflect_ValueOf_def field_A_def)
qed

section \<open>Complete traversals\<close>

lemma decode_Suc:
  "decode L om (Suc fuel) (t, p) =
        call_with (ParseType p)
          (\<lambda>ty p1.
             case ty of
               objconv_Nil \<Rightarrow> call (ParseNil p1) (\<lambda>p2. Inr (t, p2))
             | objconv_Bool \<Rightarrow> call_with (ParseBool p1) (\<lambda>x p2. Inr (t, p2))
             | objconv_Int \<Rightarrow> call_with (ParseInt p1) (\<lambda>x p2. Inr (t, p2))
             | objconv_Uint \<Rightarrow> call_with (ParseUint p1) (\<lambda>x p2. Inr (t, p2))
             | objconv_Float \<Rightarrow> call_with (ParseFloat p1) (\<lambda>x p2. Inr (t, p2))
             | objconv_String \<Rightarrow> call_with (ParseString p1) (\<lambda>x p2. Inr (t, p2))
             | objconv_Bytes \<Rightarrow> call_with (ParseBytes p1) (\<lambda>x p2. Inr (t, p2))
             | objconv_Time \<Rightarrow> call_with (ParseTime p1) (\<lambda>x p2. Inr (t, p2))
             | objconv_Duration \<Rightarrow> call_with (ParseDuration p1) (\<lambda>x p2. Inr (t, p2))
             | objconv_Error \<Rightarrow> call_with (ParseError p1) (\<lambda>x p2. Inr (t, p2))
             | objconv_Array \<Rightarrow>
                 call_with (ParseArrayBegin p1)
                   (\<lambda>n p2.
                      case array_elements (decode L om fuel) n
                             ((fst t + 1, snd t), p2) of
                        Inl a \<Rightarrow> Inl a
                      | Inr (t3, p3) \<Rightarrow>
                          call (ParseArrayEnd p3) (\<lambda>p4. Inr ((fst t3, snd t3 + 1), p4)))
             | objconv_Map \<Rightarrow>
                 call_with (ParseMapBegin L om p1)
                   (\<lambda>n p2.
                      case map_entries (decode L om fuel) n
                             ((fst t + 1, snd t), p2) of
                        Inl a \<Rightarrow> Inl a
                      | Inr (t3, p3) \<Rightarrow>
                          call (ParseMapEnd p3) (\<lambda>p4. Inr ((fst t3, snd t3 + 1), p4))))"
  by simp

declare decode.simps(2) [simp del]

lemma call_with_Inr [simp]: "call_with (Inr ((x, None), p)) k = k x p"
  by (simp add: call_with_def)

lemma call_Inr [simp]: "call (Inr (None, p)) k = k p"
  by (simp add: call_def)

lemma is_error_not_time: "is_error i \<Longrightarrow> \<not> is_time_Time i \<and> \<not> is_time_Duration i"
  by (auto simp: type_switch_defs split: option.splits)

lemma type_assert_ok: "is_T i \<Longrightarrow> i = Some d \<Longrightarrow> type_assert is_T i = Inr d"
  by (simp add: type_assert_def)

lemma type_switch_Some:
  "is_time_Time i \<or> is_time_Duration i \<or> is_error i \<Longrightarrow> \<exists>d. i = Some d"
  by (cases i) (auto simp: type_switch_defs)

lemma decode_domain:
  assumes pv: "p_value p = Inr r" and d: "domain_typed r"
  shows "decode L om (Suc fuel) (t, p) = Inr (t, p)"
proof -
  from d obtain i where i: "Value_Interface r = Inr i"
    and sw: "is_time_Time i \<or> is_time_Duration i \<or> is_error i"
    by (auto simp: domain_typed_def split: sum.splits)
  from i have valid: "Value_IsValid r"
    by (cases r) (simp_all add: Value_IsValid_def)
  from type_switch_Some [OF sw] obtain d where some: "i = Some d" ..
  consider (T) "is_time_Time i" | (D) "\<not> is_time_Time i" "is_time_Duration i"
    | (E) "\<not> is_time_Time i" "\<not> is_time_Duration i" "is_error i"
    using sw by blast
  then show ?thesis
  proof cases
    case T
    then show ?thesis
      using i valid some
      by (simp add: decode_Suc ParseType_resolved [OF pv] ParseTime_def Parse_asserted_def pv
          type_assert_ok)
  next
    case D
    then show ?thesis
      using i valid some
      by (simp add: decode_Suc ParseType_resolved [OF pv] ParseDuration_def Parse_asserted_def pv
          type_assert_ok)
  next
    case E
    then show ?thesis
      using i valid some
      by (simp add: decode_Suc ParseType_resolved [OF pv] ParseError_def Parse_asserted_def pv
          type_assert_ok)
  qed
qed

lemma decode_leaf:
  assumes pv: "p_value p = Inr r" and d: "\<not> domain_typed r" and l: "leaf r"
  shows "decode L om (Suc fuel) (t, p) = Inr (t, p)"
  using l d
  by (cases r rule: leaf.cases)
     (simp_all add: decode_Suc ParseType_resolved [OF pv] domain_typed_def Value_IsValid_def
        Kind_switch_def ParseNil_def ParseBool_def ParseInt_def ParseUint_def ParseFloat_def
        ParseString_def ParseBytes_def pv split: size_splits)

lemma restoresD:
  "restores dv x \<Longrightarrow> stack q \<noteq> [] \<Longrightarrow> last (stack q) = x
    \<Longrightarrow> \<exists>m. dv (t, q) = Inr ((fst t + m, snd t + m), q)"
  by (cases t) (auto simp: restores_def)

lemma ParseArrayNext_at_element:
  assumes "Value_Index (c_value c) (Suc i) = Inr (xs ! Suc i)"
  shows "ParseArrayNext (at_element s cs c xs i) = Inr (None, at_element s cs c xs (Suc i))"
  using assms by (simp add: ParseArrayNext_def at_element_def stack_defs Let_def)

lemma array_elements_loop:
  assumes body: "\<forall>x\<in>set xs. restores dv x"
    and idx: "\<forall>j<length xs. Value_Index (c_value c) j = Inr (xs ! j)"
  shows "i + k = length xs \<Longrightarrow> 0 < k \<Longrightarrow>
     \<exists>m. array_elements dv k (t, at_element s cs c xs i) =
            Inr ((fst t + m, snd t + m), at_element s cs c xs (length xs - 1))"
proof (induction k arbitrary: i t)
  case 0
  then show ?case by simp
next
  case (Suc k)
  from Suc.prems have i: "i < length xs" by simp
  then have "restores dv (xs ! i)"
    using body by simp
  from restoresD [OF this, of "at_element s cs c xs i" t]
  obtain m where m: "dv (t, at_element s cs c xs i) = Inr ((fst t + m, snd t + m), at_element s cs c xs i)"
    by (auto simp: at_element_def)
  show ?case
  proof (cases "k = 0")
    case True
    with Suc.prems have "i = length xs - 1" by simp
    with m True show ?thesis
      by (intro exI [of _ m]) simp
  next
    case False
    with Suc.prems have si: "Suc i + k = length xs" "0 < k" "Suc i < length xs"
      by simp_all
    from idx si(3) have nx: "Value_Index (c_value c) (Suc i) = Inr (xs ! Suc i)"
      by simp
    from Suc.IH [OF si(1,2), of "(fst t + m, snd t + m)"]
    obtain m' where "array_elements dv k ((fst t + m, snd t + m), at_element s cs c xs (Suc i)) =
            Inr ((fst t + m + m', snd t + m + m'), at_element s cs c xs (length xs - 1))"
      by auto
    with m False show ?thesis
      by (intro exI [of _ "m + m'"])
         (simp add: ParseArrayNext_at_element [OF nx] add.assoc)
  qed
qed

lemma ParseArrayEnd_at_element:
  "c_length c \<noteq> 0 \<Longrightarrow>
   ParseArrayEnd (at_element s cs c xs i) = Inr (None, \<lparr>stack = s, ctx = cs\<rparr>)"
  by (simp add: ParseArrayEnd_def at_element_def stack_defs)

lemma ParseType_Array:
  assumes pv: "p_value p = Inr v" and d: "\<not> domain_typed v"
    and v: "v = VSlice ty k xs \<and> k \<noteq> reflect_Uint8 \<or> v = VArray ty k a xs"
  shows "ParseType p = Inr ((objconv_Array, None), p)"
  using v d
  by (auto simp: ParseType_resolved [OF pv] domain_typed_def Value_IsValid_def Kind_switch_def)

lemma decode_array:
  assumes pv: "p_value p = Inr v"
    and ty: "ParseType p = Inr ((objconv_Array, None), p)"
    and len: "Value_Len v = Inr (length ys)"
    and idx: "\<forall>j<length ys. Value_Index v j = Inr (ys ! j)"
    and body: "\<forall>x\<in>set ys. restores (decode L om fuel) x"
  shows "\<exists>m. decode L om (Suc fuel) (t, p) = Inr ((fst t + m, snd t + m), p)"
proof -
  define c where "c = \<lparr>c_index = 0, c_length = length ys, c_value = v, c_keys = None, c_fields = []\<rparr>"
  show ?thesis
  proof (cases "ys = []")
    case True
    with len have "ParseArrayBegin p = Inr ((0, None), pushContext p c)"
      by (simp add: ParseArrayBegin_def pv c_def)
    moreover have "ParseArrayEnd (pushContext p c) = Inr (None, p)"
      using True by (simp add: ParseArrayEnd_def stack_defs c_def)
    ultimately show ?thesis
      by (intro exI [of _ 1]) (simp add: decode_Suc ty)
  next
    case False
    with idx have i0: "Value_Index v 0 = Inr (ys ! 0)"
      by simp
    from False have n0: "length ys \<noteq> 0"
      by simp
    from ParseArrayBegin_nonempty [OF pv len n0 i0]
    have b: "ParseArrayBegin p = Inr ((length ys, None), at_element (stack p) (ctx p) c ys 0)"
      by (simp add: at_element_def c_def)
    have idx': "\<forall>j<length ys. Value_Index (c_value c) j = Inr (ys ! j)"
      using idx by (simp add: c_def)
    from False have "0 + length ys = length ys" "0 < length ys" by simp_all
    from array_elements_loop [OF body idx' this, of "(fst t + 1, snd t)" "stack p" "ctx p"]
    obtain m where m: "array_elements (decode L om fuel) (length ys)
         ((fst t + 1, snd t), at_element (stack p) (ctx p) c ys 0) =
       Inr ((fst t + 1 + m, snd t + m), at_element (stack p) (ctx p) c ys (length ys - 1))"
      by auto
    have e: "ParseArrayEnd (at_element (stack p) (ctx p) c ys (length ys - 1)) = Inr (None, p)"
      using False by (simp add: ParseArrayEnd_at_element c_def)
    show ?thesis
      using b m e by (intro exI [of _ "1 + m"]) (simp add: decode_Suc ty)
  qed
qed

lemma ParseMapValue_at_element:
  assumes "c_keys c = Some keys" and "i < length keys"
    and "Value_MapIndex (c_value c) (keys ! i) = Inr (vals ! i)"
  shows "ParseMapValue (at_element s cs c keys i) = Inr (None, at_element s cs c vals i)"
  using assms by (simp add: ParseMapValue_def at_element_def stack_defs)

lemma ParseMapNext_at_element:
  assumes "c_keys c = Some keys" and "Suc i < length keys"
  shows "ParseMapNext (at_element s cs c vals i) = Inr (None, at_element s cs c keys (Suc i))"
  using assms by (simp add: ParseMapNext_def at_element_def stack_defs Let_def)

lemma map_entries_loop:
  assumes kbody: "\<forall>x\<in>set keys. restores dv x"
    and vbody: "\<forall>x\<in>set vals. restores dv x"
    and len: "length vals = length keys"
    and ck: "c_keys c = Some keys"
    and idx: "\<forall>j<length keys. Value_MapIndex (c_value c) (keys ! j) = Inr (vals ! j)"
  shows "i + k = length keys \<Longrightarrow> 0 < k \<Longrightarrow>
     \<exists>m. map_entries dv k (t, at_element s cs c keys i) =
            Inr ((fst t + m, snd t + m), at_element s cs c vals (length keys - 1))"
proof (induction k arbitrary: i t)
  case 0
  then show ?case by simp
next
  case (Suc k)
  from Suc.prems have i: "i < length keys" by simp
  with len have rk: "restores dv (keys ! i)" and rv: "restores dv (vals ! i)"
    using kbody vbody by simp_all
  from restoresD [OF rk, of "at_element s cs c keys i" t]
  obtain m1 where m1: "dv (t, at_element s cs c keys i) =
      Inr ((fst t + m1, snd t + m1), at_element s cs c keys i)"
    by (auto simp: at_element_def)
  from idx i have mv: "ParseMapValue (at_element s cs c keys i) = Inr (None, at_element s cs c vals i)"
    by (simp add: ParseMapValue_at_element [OF ck])
  from restoresD [OF rv, of "at_element s cs c vals i" "(fst t + m1, snd t + m1)"]
  obtain m2 where m2: "dv ((fst t + m1, snd t + m1), at_element s cs c vals i) =
      Inr ((fst t + m1 + m2, snd t + m1 + m2), at_element s cs c vals i)"
    by (auto simp: at_element_def)
  show ?case
  proof (cases "k = 0")
    case True
    with Suc.prems have "i = length keys - 1" by simp
    with m1 mv m2 True show ?thesis
      by (intro exI [of _ "m1 + m2"]) (simp add: add.assoc)
  next
    case False
    with Suc.prems have si: "Suc i + k = length keys" "0 < k" "Suc i < length keys"
      by simp_all
    from Suc.IH [OF si(1,2), of "(fst t + m1 + m2, snd t + m1 + m2)"]
    obtain m' where "map_entries dv k ((fst t + m1 + m2, snd t + m1 + m2), at_element s cs c keys (Suc i)) =
            Inr ((fst t + m1 + m2 + m', snd t + m1 + m2 + m'), at_element s cs c vals (length keys - 1))"
      by auto
    with m1 mv m2 False show ?thesis
      by (intro exI [of _ "m1 + m2 + m'"])
         (simp add: ParseMapNext_at_element [OF ck si(3)] add.assoc)
  qed
qed

lemma ParseMapEnd_at_element:
  "c_length c \<noteq> 0 \<Longrightarrow>
   ParseMapEnd (at_element s cs c xs i) = Inr (None, \<lparr>stack = s, ctx = cs\<rparr>)"
  by (simp add: ParseMapEnd_def at_element_def stack_defs)

lemma ParseType_Map:
  assumes pv: "p_value p = Inr v" and d: "\<not> domain_typed v"
    and v: "v = VMap ty kvs \<or> v = VStruct ty a fs"
  shows "ParseType p = Inr ((objconv_Map, None), p)"
  using v d
  by (auto simp: ParseType_resolved [OF pv] domain_typed_def Value_IsValid_def Kind_switch_def)

lemma set_map_values:
  "x \<in> set (map_values kvs) \<Longrightarrow> x = Zero \<or> x \<in> (\<lambda>kx. set_CanAddr False (snd kx)) ` set kvs"
  by (force simp: map_values_def split: option.splits dest!: map_of_SomeD)

lemma decode_map:
  assumes pv: "p_value p = Inr v" and d: "\<not> domain_typed v"
    and v: "v = VMap ty kvs"
    and kbody: "\<forall>kx\<in>set kvs. restores (decode L om fuel) (set_CanAddr False (fst kx))"
    and vbody: "\<forall>kx\<in>set kvs. restores (decode L om fuel) (set_CanAddr False (snd kx))"
    and zbody: "restores (decode L om fuel) Zero"
  shows "\<exists>m. decode L om (Suc fuel) (t, p) = Inr ((fst t + m, snd t + m), p)"
proof -
  note ty = ParseType_Map [OF pv d disjI1, OF v]
  define keys where "keys = map_keys kvs"
  define vals where "vals = map_values kvs"
  define c where "c = \<lparr>c_index = 0, c_length = length kvs, c_value = v, c_keys = Some keys, c_fields = []\<rparr>"
  show ?thesis
  proof (cases "kvs = []")
    case True
    with v have "ParseMapBegin L om p = Inr ((0, None), pushContext p c)"
      by (simp add: ParseMapBegin_def pv c_def keys_def map_keys_def)
    moreover have "ParseMapEnd (pushContext p c) = Inr (None, p)"
      using True by (simp add: ParseMapEnd_def stack_defs c_def)
    ultimately show ?thesis
      by (intro exI [of _ 1]) (simp add: decode_Suc ty)
  next
    case False
    with v have b: "ParseMapBegin L om p = Inr ((length keys, None), at_element (stack p) (ctx p) c keys 0)"
      by (simp add: ParseMapBegin_def pv c_def keys_def map_keys_def at_element_def stack_defs)
    have kb: "\<forall>x\<in>set keys. restores (decode L om fuel) x"
      using kbody by (auto simp: keys_def map_keys_def)
    have vb: "\<forall>x\<in>set vals. restores (decode L om fuel) x"
      using vbody zbody set_map_values [of _ kvs] unfolding vals_def by blast
    have len: "length vals = length keys"
      by (simp add: vals_def keys_def map_values_def)
    have ck: "c_keys c = Some keys"
      by (simp add: c_def)
    have idx: "\<forall>j<length keys. Value_MapIndex (c_value c) (keys ! j) = Inr (vals ! j)"
      using v by (simp add: c_def vals_def keys_def map_values_def)
    from False have "0 + length keys = length keys" "0 < length keys"
      by (simp_all add: keys_def map_keys_def)
    from map_entries_loop [OF kb vb len ck idx this, of "(fst t + 1, snd t)" "stack p" "ctx p"]
    obtain m where m: "map_entries (decode L om fuel) (length keys)
         ((fst t + 1, snd t), at_element (stack p) (ctx p) c keys 0) =
       Inr ((fst t + 1 + m, snd t + m), at_element (stack p) (ctx p) c vals (length keys - 1))"
      by auto
    have e: "ParseMapEnd (at_element (stack p) (ctx p) c vals (length keys - 1)) = Inr (None, p)"
      using False by (simp add: ParseMapEnd_at_element c_def)
    show ?thesis
      using b m e by (intro exI [of _ "1 + m"]) (simp add: decode_Suc ty)
  qed
qed

lemma decode_struct:
  assumes pv: "p_value p = Inr v" and d: "\<not> domain_typed v"
    and v: "v = VStruct ty a fs"
    and acc: "list_all (accessible v) (L ty)" and none: "surviving om v (L ty) = []"
  shows "decode L om (Suc fuel) (t, p) = Inr ((fst t + 1, snd t + 1), p)"
proof -
  note ty = ParseType_Map [OF pv d disjI2, OF v]
  from v have k: "Value_Kind v = reflect_Struct" and vt: "Value_Type v = Inr ty"
    by (simp_all add: Value_Type_def)
  from acc have acc': "list_all (accessible v) (L ty)" .
  have b: "ParseMapBegin L om p = Inr ((0, None), pushContext p (struct_context v []))"
    using ParseMapBegin_struct_general [where LookupStruct = L and omit = om, OF pv k vt acc'] none
    by simp
  have e: "ParseMapEnd (pushContext p (struct_context v [])) = Inr (None, p)"
    by (simp add: ParseMapEnd_def stack_defs struct_context_def)
  show ?thesis
    by (simp add: decode_Suc ty b e)
qed

lemma nonnil_wrapper_cases:
  "nonnil_wrapper v \<Longrightarrow> (\<exists>t n x. v = VPtr t n (Some x) \<or> v = VInterface t (Some x))"
  by (cases v) (auto simp: nonnil_wrapper_def split: size_splits)

lemma walkable_dereference:
  "walkable L om v \<Longrightarrow>
   \<exists>r. dereference v = Inr r \<and> walkable L om r \<and> \<not> nonnil_wrapper r \<and> size r \<le> size v"
proof (induction v rule: measure_induct_rule [where f = size])
  case (less v)
  show ?case
  proof (cases "nonnil_wrapper v")
    case False
    with less.prems show ?thesis
      by (simp add: dereference_stop)
  next
    case True
    from nonnil_wrapper_cases [OF True] less.prems have w: "walkable L om (held v)"
      by (auto simp: held_def)
    from less.IH [OF size_held [OF True] w] size_held [OF True] show ?thesis
      by (auto simp: dereference_step [OF True])
  qed
qed

lemma resolved_shapes:
  "walkable L om r \<Longrightarrow> \<not> nonnil_wrapper r \<Longrightarrow> \<not> domain_typed r \<Longrightarrow>
   leaf r \<or> (\<exists>ty k xs. r = VSlice ty k xs \<and> k \<noteq> reflect_Uint8) \<or> (\<exists>ty k a xs. r = VArray ty k a xs)
     \<or> (\<exists>ty kvs. r = VMap ty kvs) \<or> (\<exists>ty a fs. r = VStruct ty a fs)"
  by (cases r) (auto simp: nonnil_wrapper_def split: option.splits)

lemma size_element:
  "x \<in> set xs \<Longrightarrow> size x < size (VSlice t k xs)"
  "x \<in> set xs \<Longrightarrow> size x < size (VArray t k a xs)"
  using size_list_estimation' [of x xs "size x" size] by simp_all

lemma size_entry:
  assumes "kx \<in> set kvs"
  shows "size (fst kx) < size (VMap t kvs)" "size (snd kx) < size (VMap t kvs)"
proof -
  from size_list_estimation' [OF assms, of "size_prod size size kx" "size_prod size size"]
  have "size_prod size size kx \<le> size_list (size_prod size size) kvs"
    by simp
  then show "size (fst kx) < size (VMap t kvs)" "size (snd kx) < size (VMap t kvs)"
    by (cases kx; simp)+
qed

lemma p_value_top_error:
  "top_error v \<Longrightarrow> stack q \<noteq> [] \<Longrightarrow> last (stack q) = v \<Longrightarrow> p_value q = Inr v"
  by (auto simp: p_value_def top_error_def split: sum.splits)

lemma p_value_dereference:
  "\<not> top_error v \<Longrightarrow> stack q \<noteq> [] \<Longrightarrow> last (stack q) = v \<Longrightarrow> v \<noteq> Zero
    \<Longrightarrow> p_value q = dereference v"
  by (cases v) (auto simp: p_value_def top_error_def Value_IsValid_def)

lemma p_value_Zero:
  "stack q \<noteq> [] \<Longrightarrow> last (stack q) = Zero \<Longrightarrow> p_value q = Inr Zero"
  by (simp add: p_value_def Value_IsValid_def)

lemma top_error_set_CanAddr [simp]: "top_error (set_CanAddr a v) = top_error v"
  by (cases v) (simp_all add: top_error_def is_error_def)

lemma top_error_domain_typed: "top_error v \<Longrightarrow> domain_typed v"
  by (auto simp: top_error_def domain_typed_def split: sum.splits)

lemma decode_restores:
  "size v < fuel \<Longrightarrow> plain L om v \<Longrightarrow> restores (decode L om fuel) v"
proof (induction fuel arbitrary: v)
  case 0
  then show ?case by simp
next
  case (Suc fuel)
  have balanced: "\<exists>m. decode L om (Suc fuel) (t, q) = Inr ((fst t + m, snd t + m), q)"
    if q: "stack q \<noteq> []" "last (stack q) = v" for t q
  proof (cases "top_error v")
    case True
    from decode_domain [OF p_value_top_error [OF True q] top_error_domain_typed [OF True]]
    show ?thesis
      by (intro exI [of _ 0]) simp
  next
    case False
    with Suc.prems have w: "walkable L om v"
      by (simp add: plain_def)
    from walkable_dereference [OF w] obtain r where
      r: "dereference v = Inr r" "walkable L om r" "\<not> nonnil_wrapper r" "size r \<le> size v"
      by blast
    have pv: "p_value q = Inr r"
    proof (cases "v = Zero")
      case True
      with r(1) have "r = Zero"
        by (simp add: dereference_stop nonnil_wrapper_def)
      with True q show ?thesis
        by (simp add: p_value_Zero)
    next
      case False
      with p_value_dereference [OF \<open>\<not> top_error v\<close> q] r(1) show ?thesis
        by simp
    qed
    show ?thesis
    proof (cases "domain_typed r")
      case True
      from decode_domain [OF pv True] show ?thesis
        by (intro exI [of _ 0]) simp
    next
      case False
      have child: "restores (decode L om fuel) (set_CanAddr a x)"
        if "size x < size r" "top_error x \<or> walkable L om (set_CanAddr a x)" for a x
        using that r(4) Suc.prems(1) by (intro Suc.IH) (simp_all add: plain_def)
      from resolved_shapes [OF r(2,3) False]
      consider (leaf) "leaf r"
        | (slice) ty k xs where "r = VSlice ty k xs \<and> k \<noteq> reflect_Uint8"
        | (array) ty k a xs where "r = VArray ty k a xs"
        | (map) ty kvs where "r = VMap ty kvs"
        | (struct) ty a fs where "r = VStruct ty a fs"
        by blast
      then show ?thesis
      proof cases
        case leaf
        from decode_leaf [OF pv False leaf] show ?thesis
          by (intro exI [of _ 0]) simp
      next
        case slice
        define ys where "ys = map (set_CanAddr True) xs"
        have len: "Value_Len r = Inr (length ys)"
          and idx: "\<forall>j<length ys. Value_Index r j = Inr (ys ! j)"
          using slice by (simp_all add: ys_def)
        have body: "\<forall>y\<in>set ys. restores (decode L om fuel) y"
          using slice r(2) child size_element(1) [of _ xs ty k]
          by (auto simp: ys_def list_all_iff)
        from slice have "r = VSlice ty k xs \<and> k \<noteq> reflect_Uint8 \<or> r = VArray ty k True xs"
          by simp
        from decode_array [OF pv ParseType_Array [OF pv False this] len idx body]
        show ?thesis .
      next
        case array
        define ys where "ys = map (set_CanAddr a) xs"
        have len: "Value_Len r = Inr (length ys)"
          and idx: "\<forall>j<length ys. Value_Index r j = Inr (ys ! j)"
          using array by (simp_all add: ys_def)
        have body: "\<forall>y\<in>set ys. restores (decode L om fuel) y"
          using array r(2) child size_element(2) [of _ xs ty k a]
          by (auto simp: ys_def list_all_iff)
        from array have "r = VSlice ty k xs \<and> k \<noteq> reflect_Uint8 \<or> r = VArray ty k a xs"
          by simp
        from decode_array [OF pv ParseType_Array [OF pv False this] len idx body]
        show ?thesis .
      next
        case map
        have kb: "\<forall>kx\<in>set kvs. restores (decode L om fuel) (set_CanAddr False (fst kx))"
          and vb: "\<forall>kx\<in>set kvs. restores (decode L om fuel) (set_CanAddr False (snd kx))"
          using map r(2) child size_entry [of _ kvs ty]
          by (auto simp: list_all_iff)
        from map r(4) Suc.prems(1) have "size Zero < fuel"
          by simp
        moreover have "plain L om Zero"
          by (simp add: plain_def)
        ultimately have zb: "restores (decode L om fuel) Zero"
          by (rule Suc.IH)
        from decode_map [OF pv False map kb vb zb] show ?thesis .
      next
        case struct
        with r(2) False have "list_all (accessible r) (L ty)" "surviving om r (L ty) = []"
          by simp_all
        from decode_struct [where L = L and om = om, OF pv False struct this] show ?thesis
          by (intro exI [of _ 1]) simp
      qed
    qed
  qed
  then show ?case
    by (simp add: restores_def)
qed

text \<open>
  Claim C1, amended. For every root value that is \<open>plain\<close> (scalars, values of the
  domain types, nil interfaces, byte slices, pointers and interfaces to such values,
  slices, arrays and maps of them, structs with no surviving field), driving the parser
  by the protocol grammar completes without a panic or an error, makes as many \<^verbatim>\<open>Begin\<close>
  as \<^verbatim>\<open>End\<close> calls, and returns the parser as \<^verbatim>\<open>NewValueParser\<close> made it: the context
  stack is empty and the value stack holds the root value alone. Any nesting bound
  above the size of the root value is enough for the traversal to complete. Structs with
  a surviving field are not covered.
\<close>

theorem traversal_restores_parser:
  assumes "plain L om (reflect_ValueOf x)" and "size (reflect_ValueOf x) < fuel"
  shows "\<exists>m. decode L om fuel ((0, 0), NewValueParser x) = Inr ((m, m), NewValueParser x)
         \<and> stack (NewValueParser x) = [reflect_ValueOf x] \<and> ctx (NewValueParser x) = []"
proof -
  have "restores (decode L om fuel) (reflect_ValueOf x)"
    using assms by (intro decode_restores)
  from restoresD [OF this, of "NewValueParser x" "(0, 0)"] show ?thesis
    by (simp add: NewValueParser_def)
qed

lemma decode_ints123_at:
  "decode L om (Suc fuel) (t, ints123_at i) = Inr (t, ints123_at i)"
  by (rule decode_leaf [OF p_value_ints123_at])
     (simp_all add: domain_typed_def type_switch_defs int_type_def)

text \<open>
  Claim C1 fails on the value stack: \<^verbatim>\<open>NewValueParser\<close> puts the root value on it and
  no method removes it. After the complete traversal of \<^verbatim>\<open>[1,2,3]\<close> (one \<^verbatim>\<open>Begin\<close>, one
  \<^verbatim>\<open>End\<close>) the value stack holds the root; it is not empty.
\<close>

theorem array_traversal_keeps_root:
  "decode no_fields omit_never 2 ((0, 0), NewValueParser (Some ints123)) =
     Inr ((1, 1), NewValueParser (Some ints123))
   \<and> stack (NewValueParser (Some ints123)) = [ints123]
   \<and> stack (NewValueParser (Some ints123)) \<noteq> []"
proof -
  have d: "\<not> domain_typed ints123"
    by (simp add: domain_typed_def ints123_def type_switch_defs)
  have ty: "ParseType (NewValueParser (Some ints123)) =
      Inr ((objconv_Array, None), NewValueParser (Some ints123))"
    by (rule ParseType_Array [OF p_value_ints123 d, where k = reflect_Int]) (simp add: ints123_def)
  have steps: "ParseArrayNext (ints123_at 0) = Inr (None, ints123_at (Suc 0))"
    "ParseArrayNext (ints123_at (Suc 0)) = Inr (None, ints123_at (Suc (Suc 0)))"
    "ParseArrayEnd (ints123_at (Suc (Suc 0))) = Inr (None, NewValueParser (Some ints123))"
    using replay_123 by (simp_all add: numeral_2_eq_2)
  have "decode no_fields omit_never (Suc (Suc 0)) ((0, 0), NewValueParser (Some ints123)) =
     Inr ((1, 1), NewValueParser (Some ints123))"
    by (simp add: decode_Suc [of _ _ "Suc 0"] ty replay_123(1) steps numeral_3_eq_3
        decode_ints123_at)
  then show ?thesis
    by (simp add: numeral_2_eq_2 NewValueParser_def reflect_ValueOf_def)
qed

text \<open>
  The struct branch of \<^verbatim>\<open>ParseMapBegin\<close> leaves the \<^verbatim>\<open>length\<close> of its context zero,
  and \<^verbatim>\<open>ParseMapEnd\<close> pops the last child only when that \<^verbatim>\<open>length\<close> is not zero. The
  complete traversal of the record \<^verbatim>\<open>{A: 0, B: "x"}\<close> with the omit-zero predicate
  therefore ends with the value of its last field still on the value stack, above the
  root.
\<close>

theorem struct_traversal_leaves_value:
  "decode lookup_AB omit_zero 2 ((0, 0), NewValueParser (Some record_AB)) =
     Inr ((1, 1), record_AB_done)
   \<and> stack record_AB_done = [record_AB, VString string_type ''x'']
   \<and> ctx record_AB_done = []"
proof -
  have d: "\<not> domain_typed record_AB"
    by (simp add: domain_typed_def record_AB_def AB_type_def type_switch_defs)
  have ty: "ParseType (NewValueParser (Some record_AB)) =
      Inr ((objconv_Map, None), NewValueParser (Some record_AB))"
    by (rule ParseType_Map [OF p_value_record_AB d, where ty = AB_type and a = False]) (simp add: record_AB_def)
  have ds: "\<not> domain_typed (VString string_type s)" for s
    by (simp add: domain_typed_def type_switch_defs string_type_def)
  have pk: "p_value record_AB_begun = Inr (VString string_type ''B'')"
    and px: "p_value record_AB_at_value = Inr (VString string_type ''x'')"
    by (simp_all add: record_AB_begun_def record_AB_at_value_def p_value_def Value_IsValid_def
        is_error_def string_type_def dereference_stop nonnil_wrapper_def)
  have k: "decode lookup_AB omit_zero (Suc 0) (t, record_AB_begun) = Inr (t, record_AB_begun)"
    and x: "decode lookup_AB omit_zero (Suc 0) (t, record_AB_at_value) = Inr (t, record_AB_at_value)"
    for t
    by (rule decode_leaf [OF pk ds], simp, rule decode_leaf [OF px ds], simp)
  have e: "ParseMapEnd record_AB_at_value = Inr (None, record_AB_done)"
    by (simp add: ParseMapEnd_def record_AB_at_value_def record_AB_done_def stack_defs
        struct_context_def)
  have "decode lookup_AB omit_zero (Suc (Suc 0)) ((0, 0), NewValueParser (Some record_AB)) =
     Inr ((1, 1), record_AB_done)"
    by (simp add: decode_Suc [of _ _ "Suc 0"] ty record_AB_run k x e)
  then show ?thesis
    by (simp add: numeral_2_eq_2 record_AB_done_def)
qed

text \<open>The theorem at the nested value \<open>nested\<close>.\<close>

theorem traversal_restores_parser_witness:
  "plain no_fields omit_never (reflect_ValueOf (Some nested))
   \<and> (\<exists>m. decode no_fields omit_never (Suc (size nested)) ((0, 0), NewValueParser (Some nested)) =
            Inr ((m, m), NewValueParser (Some nested)))
   \<and> stack (NewValueParser (Some nested)) = [nested] \<and> ctx (NewValueParser (Some nested)) = []"
proof -
  have p: "plain no_fields omit_never (reflect_ValueOf (Some nested))"
    by (simp add: plain_def reflect_ValueOf_def nested_def map_k1_def boxed_int5_def ints123_def
        int5_def string_key_def)
  have f: "size (reflect_ValueOf (Some nested)) < Suc (size nested)"
    by (simp add: reflect_ValueOf_def)
  from traversal_restores_parser [OF p f] p show ?thesis
    by (simp add: reflect_ValueOf_def)
qed

end
